theory Spec2Isabelle
  imports Main "HOL-Library.Sublist" "HOL-Library.Multiset"
begin

section \<open>Strings of the Go standard library\<close>

text \<open>
  A Go string is a sequence of bytes and is modelled as a \<^typ>\<open>string\<close>, one
  \<^typ>\<open>char\<close> per byte; text is UTF-8.
\<close>

text \<open>
  \<open>strings.ToUpper\<close> maps every character to its upper case. \<open>Parse\<close> only compares
  the result with names in ASCII, so the model gives the result when it is ASCII and \<open>None\<close>
  when it holds a character outside ASCII. The characters whose upper case is ASCII are the
  ASCII characters themselves (a small letter becomes the capital, any other stays), the
  small dotless i (U+0131, the bytes C4 B1), which becomes \<open>I\<close>, and the small long s
  (U+017F, the bytes C5 BF), which becomes \<open>S\<close>. A byte that is not part of well-formed
  UTF-8 comes out as U+FFFD, which is not ASCII.
\<close>

definition is_ascii :: "char \<Rightarrow> bool" where
  "is_ascii c = ((of_char c :: nat) < 128)"

definition to_upper_char :: "char \<Rightarrow> char" where
  "to_upper_char c =
     (case map_of (zip ''abcdefghijklmnopqrstuvwxyz'' ''ABCDEFGHIJKLMNOPQRSTUVWXYZ'') c of
        Some u \<Rightarrow> u
      | None \<Rightarrow> c)"

fun ToUpper :: "string \<Rightarrow> string option" where
  "ToUpper [] = Some []"
| "ToUpper [c] = (if is_ascii c then Some [to_upper_char c] else None)"
| "ToUpper (c # d # cs) =
     (if is_ascii c then map_option (\<lambda>u. to_upper_char c # u) (ToUpper (d # cs))
      else if c = CHR 0xC5 \<and> d = CHR 0xBF then map_option (\<lambda>u. CHR ''S'' # u) (ToUpper cs)
      else if c = CHR 0xC4 \<and> d = CHR 0xB1 then map_option (\<lambda>u. CHR ''I'' # u) (ToUpper cs)
      else None)"

declare ToUpper.simps [simp del]

text \<open>\<open>strings.Contains(s, substr)\<close>.\<close>

fun Contains :: "string \<Rightarrow> string \<Rightarrow> bool" where
  "Contains [] sub = (sub = [])"
| "Contains (c # cs) sub = (prefix sub (c # cs) \<or> Contains cs sub)"

text \<open>
  \<open>strings.Split(s, sep)\<close>: with a non-empty separator the string is cut at each
  leftmost occurrence of \<open>sep\<close>, scanning from the left; the pieces between the cuts are
  returned, so a string without the separator comes back as the one-element list.
  \<open>cur\<close> holds the piece being read, reversed.
\<close>

function split_on :: "string \<Rightarrow> string \<Rightarrow> string \<Rightarrow> string list" where
  "split_on sep cur s =
     (if s = [] then [rev cur]
      else if sep \<noteq> [] \<and> prefix sep s then rev cur # split_on sep [] (drop (length sep) s)
      else split_on sep (hd s # cur) (tl s))"
  by pat_completeness auto
termination
  by (relation "measure (\<lambda>(sep, cur, s). length s)") auto

declare split_on.simps [simp del]

text \<open>
  With an empty separator \<open>strings.Split\<close> cuts the string after each UTF-8 sequence.
  \<open>rune_width\<close> is the width \<open>utf8.DecodeRuneInString\<close> finds at the head of the bytes:
  the length of the sequence the first byte announces (two bytes from C2 to DF, three from E0
  to EF, four from F0 to F4) when the bytes that follow are there and in range, the second
  byte in the narrower range that E0, ED, F0 and F4 ask for; and one for an ASCII byte and
  for a byte that starts no well-formed sequence.
\<close>

definition cont :: "nat \<Rightarrow> bool" where
  "cont b = (128 \<le> b \<and> b \<le> 191)"

fun rune_width :: "nat list \<Rightarrow> nat" where
  "rune_width [] = 0"
| "rune_width (b0 # bs) =
     (if b0 < 194 \<or> 244 < b0 then 1
      else
        let size = (if b0 < 224 then 2 else if b0 < 240 then 3 else 4 :: nat);
            lo = (if b0 = 224 then 160 else if b0 = 240 then 144 else 128 :: nat);
            hi = (if b0 = 237 then 159 else if b0 = 244 then 143 else 191 :: nat)
        in if length bs < size - 1 then 1
           else if \<not> (lo \<le> bs ! 0 \<and> bs ! 0 \<le> hi) then 1
           else if size = 2 then 2
           else if \<not> cont (bs ! 1) then 1
           else if size = 3 then 3
           else if \<not> cont (bs ! 2) then 1
           else 4)"

function explode :: "string \<Rightarrow> string list" where
  "explode s =
     (if s = [] then []
      else take (rune_width (map of_char s)) s # explode (drop (rune_width (map of_char s)) s))"
  by pat_completeness auto
termination
  by (relation "measure length") (auto simp: neq_Nil_conv Let_def)

declare explode.simps [simp del]

definition Split :: "string \<Rightarrow> string \<Rightarrow> string list" where
  "Split s sep = (if sep = [] then explode s else split_on sep [] s)"

text \<open>\<open>strings.Join(elems, sep)\<close>.\<close>

fun Join :: "string list \<Rightarrow> string \<Rightarrow> string" where
  "Join [] sep = []"
| "Join [x] sep = x"
| "Join (x # y # ys) sep = x @ sep @ Join (y # ys) sep"

text \<open>\<open>strings.Replace(s, "*", "%", -1)\<close>: every \<open>*\<close> becomes \<open>%\<close>.\<close>

definition replace_star :: "string \<Rightarrow> string" where
  "replace_star s = map (\<lambda>c. if c = CHR ''*'' then CHR ''%'' else c) s"

subsection \<open>Decimal numbers: \<open>%d\<close> and \<open>strconv.Atoi\<close>\<close>

definition digit_char :: "nat \<Rightarrow> char" where
  "digit_char d = ''0123456789'' ! d"

function nat_str :: "nat \<Rightarrow> string" where
  "nat_str n = (if n < 10 then [digit_char n] else nat_str (n div 10) @ [digit_char (n mod 10)])"
  by pat_completeness auto
termination
  by (relation "measure id") auto

declare nat_str.simps [simp del]

text \<open>\<open>fmt.Sprintf("%d", n)\<close>.\<close>

definition int_str :: "int \<Rightarrow> string" where
  "int_str i = (if i < 0 then CHR ''-'' # nat_str (nat (- i)) else nat_str (nat i))"

definition is_digit :: "char \<Rightarrow> bool" where
  "is_digit c = (let n = (of_char c :: int) in 48 \<le> n \<and> n \<le> 57)"

definition digit_val :: "char \<Rightarrow> int" where
  "digit_val c = of_char c - 48"

datatype num_err = ErrSyntax | ErrRange

text \<open>
  The digit loop of \<open>strconv.ParseUint(s, 10, 64)\<close>: a character that is no digit is a
  syntax error, a value above \<open>2^64 - 1\<close> is a range error, whichever comes first.
\<close>

fun ParseUint_loop :: "int \<Rightarrow> string \<Rightarrow> num_err + int" where
  "ParseUint_loop n [] = Inr n"
| "ParseUint_loop n (c # cs) =
     (if \<not> is_digit c then Inl ErrSyntax
      else let n1 = n * 10 + digit_val c
           in if n1 > 2 ^ 64 - 1 then Inl ErrRange else ParseUint_loop n1 cs)"

text \<open>
  \<open>strconv.Atoi\<close> with a 64-bit \<open>int\<close>: an optional sign, then decimal digits. It
  returns a number together with the error: \<open>0\<close> on a syntax error, the nearest bound on
  a range error.
\<close>

definition Atoi :: "string \<Rightarrow> int \<times> num_err option" where
  "Atoi s =
     (if s = [] then (0, Some ErrSyntax)
      else
        let neg = (hd s = CHR ''-'');
            body = (if hd s = CHR ''+'' \<or> hd s = CHR ''-'' then tl s else s)
        in if body = [] then (0, Some ErrSyntax)
           else case ParseUint_loop 0 body of
                  Inl ErrSyntax \<Rightarrow> (0, Some ErrSyntax)
                | Inl ErrRange \<Rightarrow> (if neg then - (2 ^ 63) else 2 ^ 63 - 1, Some ErrRange)
                | Inr un \<Rightarrow>
                    if \<not> neg \<and> un \<ge> 2 ^ 63 then (2 ^ 63 - 1, Some ErrRange)
                    else if neg \<and> un > 2 ^ 63 then (- (2 ^ 63), Some ErrRange)
                    else (if neg then - un else un, None))"

section \<open>Data model\<close>

text \<open>The method names and the table \<open>TranslateMethods\<close>.\<close>

definition MethodEQ :: string where "MethodEQ = ''EQ''"
definition MethodNE :: string where "MethodNE = ''NE''"
definition MethodGT :: string where "MethodGT = ''GT''"
definition MethodLT :: string where "MethodLT = ''LT''"
definition MethodGTE :: string where "MethodGTE = ''GTE''"
definition MethodLTE :: string where "MethodLTE = ''LTE''"
definition MethodLIKE :: string where "MethodLIKE = ''LIKE''"
definition MethodNOT :: string where "MethodNOT = ''NOT''"
definition MethodIN :: string where "MethodIN = ''IN''"

lemmas Method_defs =
  MethodEQ_def MethodNE_def MethodGT_def MethodLT_def MethodGTE_def MethodLTE_def
  MethodLIKE_def MethodNOT_def MethodIN_def

definition TranslateMethods_table :: "(string \<times> string) list" where
  "TranslateMethods_table =
     [(MethodEQ, ''=''), (MethodNE, ''!=''), (MethodGT, ''>''), (MethodLT, ''<''),
      (MethodGTE, ''>=''), (MethodLTE, ''<=''), (MethodLIKE, ''LIKE''), (MethodNOT, ''NOT''),
      (MethodIN, ''IN'')]"

text \<open>Indexing a Go map at a key it does not hold gives the zero value, here \<open>""\<close>.\<close>

definition TranslateMethods :: "string \<Rightarrow> string" where
  "TranslateMethods m = (case map_of TranslateMethods_table m of Some s \<Rightarrow> s | None \<Rightarrow> [])"

text \<open>
  A filter value is an \<open>interface{}\<close>: \<open>nil\<close>, a string, an integer, a boolean, a
  float, or a slice of these. Floating-point arithmetic is outside this model; a float is
  carried as the decimal text it was read from.
\<close>

datatype val =
  VNil | VString string | VInt int | VBool bool | VFloat string | VList "val list"

text \<open>
  The errors. \<open>ErrBadFormat\<close> and \<open>ErrFilterNotAllowed\<close> are the two error values
  \<open>Parse\<close> and its helpers return by name. \<open>NumError f s e\<close> is the error of package
  \<open>strconv\<close>: the function, the string it was given and the kind of failure.
  \<open>ValidationError m\<close> is an error with the text \<open>m\<close> that a validation function of the
  caller returns. Modelled from the spec: \<open>ConversionError t k\<close> is the conversion error of
  \<open>parseFilterValue\<close>, which is specific to the type \<open>t\<close> and names the key \<open>k\<close>.
\<close>

datatype error =
    ErrBadFormat
  | ErrFilterNotAllowed
  | NumError string string num_err
  | ConversionError string string
  | ValidationError string

text \<open>
  A function of Go returns \<open>nil\<close>, returns an error, or panics (an index out of range, a
  failed type assertion).
\<close>

datatype outcome = Ok | Err error | Panics

text \<open>
  The structs. Some fields carry a suffix, their Go names being taken: \<open>sort_by\<close> is
  \<open>by\<close>, \<open>method_fld\<close> is \<open>method\<close>, \<open>val\<close> is \<open>value\<close>, \<open>fields_fld\<close> is
  \<open>fields\<close> and \<open>sort_fld\<close> is \<open>sort\<close>. The type \<open>Filter\<close> is declared outside src/;
  the spec gives it a field name, a method and a value, which are the fields \<open>Where()\<close> and
  \<open>Args()\<close> read. The Go \<open>int\<close> is taken to have 64 bits; \<open>offset\<close> and \<open>limit\<close>
  only ever hold what \<open>strconv.Atoi\<close> returns.
\<close>

record Sort =
  sort_by :: string
  desc :: bool

record Filter =
  name :: string
  method_fld :: string
  val :: val

text \<open>A \<open>ValidationFunc\<close> takes the value and returns an error or \<open>nil\<close> (\<open>None\<close>).\<close>

type_synonym ValidationFunc = "val \<Rightarrow> error option"

text \<open>
  The maps \<open>query\<close> and \<open>validations\<close> are association lists, which hold the
  entries of the map; the order of the list means nothing to the parser, which is told the
  order of each of its loops (see \<open>Parse\<close>). A validation entry may hold the \<open>nil\<close>
  function, \<open>None\<close>.
\<close>

type_synonym Validations = "(string \<times> ValidationFunc option) list"

record QueryParser =
  query :: "(string \<times> string list) list"
  validations :: Validations
  fields_fld :: "string list"
  offset :: int
  limit :: int
  sort_fld :: "Sort list"
  filters :: "Filter list"
  delimiter :: string
  ignoreUnknown :: bool
  ErrorMessage :: string

text \<open>\<open>p.validations[key]\<close>: the \<open>nil\<close> function when the key is absent.\<close>

definition lookup_validation :: "Validations \<Rightarrow> string \<Rightarrow> ValidationFunc option" where
  "lookup_validation vs k = (case map_of vs k of Some f \<Rightarrow> f | None \<Rightarrow> None)"

definition Delimiter :: "QueryParser \<Rightarrow> string \<Rightarrow> QueryParser" where
  "Delimiter p d = p\<lparr>delimiter := d\<rparr>"

definition IgnoreUnknownFilters :: "QueryParser \<Rightarrow> bool \<Rightarrow> QueryParser" where
  "IgnoreUnknownFilters p i = p\<lparr>ignoreUnknown := i\<rparr>"

definition defaults :: QueryParser where
  "defaults = \<lparr>query = [], validations = [], fields_fld = [], offset = 0, limit = 0,
     sort_fld = [], filters = [], delimiter = '','', ignoreUnknown = False,
     ErrorMessage = []\<rparr>"

definition SetQuery :: "QueryParser \<Rightarrow> (string \<times> string list) list \<Rightarrow> QueryParser" where
  "SetQuery p q = p\<lparr>query := q\<rparr>"

definition SetValidations :: "QueryParser \<Rightarrow> Validations \<Rightarrow> QueryParser" where
  "SetValidations p v = p\<lparr>validations := v\<rparr>"

definition New :: "(string \<times> string list) list \<Rightarrow> Validations \<Rightarrow> QueryParser" where
  "New q v = SetValidations (SetQuery defaults q) v"

section \<open>Rendering the clauses\<close>

definition Fields :: "QueryParser \<Rightarrow> string" where
  "Fields p = (if length (fields_fld p) = 0 then ''*'' else Join (fields_fld p) '', '')"

definition Offset :: "QueryParser \<Rightarrow> string" where
  "Offset p = (if offset p > 0 then ''OFFSET '' @ int_str (offset p) else [])"

definition Limit :: "QueryParser \<Rightarrow> string" where
  "Limit p = (if limit p > 0 then ''LIMIT '' @ int_str (limit p) else [])"

text \<open>The loop of \<open>Sort()\<close>: \<open>i\<close> is the index, \<open>s\<close> the text so far.\<close>

fun Sort_loop :: "Sort list \<Rightarrow> nat \<Rightarrow> string \<Rightarrow> string" where
  "Sort_loop [] i s = s"
| "Sort_loop (x # xs) i s =
     Sort_loop xs (Suc i)
       ((if i > 0 then s @ '', '' else s) @ (if desc x then sort_by x @ '' DESC'' else sort_by x))"

definition Sort :: "QueryParser \<Rightarrow> string" where
  "Sort p = (if length (sort_fld p) = 0 then [] else Sort_loop (sort_fld p) 0 ''ORDER BY '')"

text \<open>
  Modelled from the spec: the function \<open>in\<close> that \<open>Where()\<close> and \<open>Args()\<close> call is not
  under src/. The spec has an \<open>IN\<close> filter rendered as \<open>field IN (?, ?, \<dots>)\<close>, one
  placeholder per element of the filter's value sequence, and has \<open>Args()\<close> take the
  flattened element sequence. So \<open>in\<close> rewrites the placeholder that closes its query (the
  one \<open>Where()\<close> writes between the parentheses) into one placeholder per element, and
  returns the elements as parameters. The spec gives \<open>IN\<close> a sequence only; a value that is
  no sequence is left as the single parameter of the unchanged query.
\<close>

definition placeholders :: "nat \<Rightarrow> string" where
  "placeholders n = Join (replicate n ''?'') '', ''"

definition expand_placeholder :: "string \<Rightarrow> nat \<Rightarrow> string" where
  "expand_placeholder q n =
     (let after = takeWhile (\<lambda>c. c \<noteq> CHR ''?'') (rev q);
          before = dropWhile (\<lambda>c. c \<noteq> CHR ''?'') (rev q)
      in if before = [] then q else rev (tl before) @ placeholders n @ rev after)"

definition in_sql :: "string \<Rightarrow> val \<Rightarrow> string \<times> val list" where
  "in_sql q v = (case v of VList vs \<Rightarrow> (expand_placeholder q (length vs), vs) | _ \<Rightarrow> (q, [v]))"

text \<open>The loop of \<open>Where()\<close>; \<open>wh\<close> is the slice \<open>where\<close>.\<close>

fun Where_loop :: "Filter list \<Rightarrow> string list \<Rightarrow> string list" where
  "Where_loop [] wh = wh"
| "Where_loop (flt # fs) wh =
     (if method_fld flt \<in> {MethodEQ, MethodNE, MethodGT, MethodLT, MethodGTE, MethodLTE, MethodLIKE}
      then Where_loop fs (wh @ [name flt @ '' '' @ TranslateMethods (method_fld flt) @ '' ?''])
      else if method_fld flt = MethodIN
      then Where_loop fs
             (wh @ [fst (in_sql (name flt @ '' '' @ TranslateMethods (method_fld flt) @ '' (?)'')
                          (val flt))])
      else Where_loop fs wh)"

definition Where :: "QueryParser \<Rightarrow> string" where
  "Where p = (if length (filters p) = 0 then [] else Join (Where_loop (filters p) []) '' AND '')"

text \<open>
  The loop of \<open>Args()\<close>. The type assertion \<open>filter.value.(string)\<close> of the \<open>LIKE\<close> case
  panics on a value that is no string: the result is then \<open>None\<close>.
\<close>

fun Args_loop :: "Filter list \<Rightarrow> val list \<Rightarrow> val list option" where
  "Args_loop [] args = Some args"
| "Args_loop (flt # fs) args =
     (if method_fld flt \<in> {MethodEQ, MethodNE, MethodGT, MethodLT, MethodGTE, MethodLTE}
      then Args_loop fs (args @ [val flt])
      else if method_fld flt = MethodLIKE
      then (case val flt of
              VString v \<Rightarrow> Args_loop fs (args @ [VString (replace_star v)])
            | _ \<Rightarrow> None)
      else if method_fld flt = MethodIN
      then Args_loop fs (args @ snd (in_sql ''?'' (val flt)))
      else Args_loop fs args)"

definition Args :: "QueryParser \<Rightarrow> val list option" where
  "Args p = (if length (filters p) = 0 then Some [] else Args_loop (filters p) [])"

section \<open>Parsing\<close>

subsection \<open>The reserved keys\<close>

text \<open>
  Modelled from the spec: \<open>cleanSliceString\<close> is not under src/. The spec has the
  \<open>FIELDS\<close> and \<open>SORT\<close> values "split on delimiter, trimmed": every token is trimmed,
  which is taken to remove the white space of ASCII (the space and the control characters 9
  to 13) at both ends.
\<close>

definition is_space :: "char \<Rightarrow> bool" where
  "is_space c = (let n = (of_char c :: nat) in n = 32 \<or> (9 \<le> n \<and> n \<le> 13))"

definition trim :: "string \<Rightarrow> string" where
  "trim s = rev (dropWhile is_space (rev (dropWhile is_space s)))"

definition cleanSliceString :: "string list \<Rightarrow> string list" where
  "cleanSliceString list = map trim list"

text \<open>
  \<open>list := value; if strings.Contains(value[0], p.delimiter) { list = strings.Split(\<dots>) }\<close>,
  for a \<open>value\<close> of length one.
\<close>

definition split_value :: "QueryParser \<Rightarrow> string list \<Rightarrow> string list" where
  "split_value p value =
     (if Contains (hd value) (delimiter p) then Split (hd value) (delimiter p) else value)"

text \<open>
  The loop of \<open>parseSort\<close>. Reading \<open>v[0]\<close> of an empty token panics. Each directive is
  appended as soon as its name has passed the validation, so the directives before a
  rejected one stay in the list.
\<close>

fun parseSort_loop ::
  "QueryParser \<Rightarrow> string list \<Rightarrow> ValidationFunc option \<Rightarrow> outcome \<times> QueryParser" where
  "parseSort_loop p [] validate = (Ok, p)"
| "parseSort_loop p (v # vs) validate =
     (if v = [] then (Panics, p)
      else
        let (nm, d) = (if hd v = CHR ''-'' then (tl v, True)
                       else if hd v = CHR ''+'' then (tl v, False)
                       else (v, False));
            p' = p\<lparr>sort_fld := sort_fld p @ [\<lparr>sort_by = nm, desc = d\<rparr>]\<rparr>
        in case validate of
             None \<Rightarrow> parseSort_loop p' vs validate
           | Some f \<Rightarrow>
               (case f (VString nm) of
                  Some e \<Rightarrow> (Err e, p)
                | None \<Rightarrow> parseSort_loop p' vs validate))"

definition parseSort ::
  "QueryParser \<Rightarrow> string list \<Rightarrow> ValidationFunc option \<Rightarrow> outcome \<times> QueryParser" where
  "parseSort p value validate =
     (if length value \<noteq> 1 then (Err ErrBadFormat, p)
      else parseSort_loop p (cleanSliceString (split_value p value)) validate)"

text \<open>The validation loop of \<open>parseFields\<close>: the first error, if any.\<close>

fun validate_each :: "ValidationFunc \<Rightarrow> val list \<Rightarrow> error option" where
  "validate_each f [] = None"
| "validate_each f (v # vs) = (case f v of Some e \<Rightarrow> Some e | None \<Rightarrow> validate_each f vs)"

definition parseFields ::
  "QueryParser \<Rightarrow> string list \<Rightarrow> ValidationFunc option \<Rightarrow> outcome \<times> QueryParser" where
  "parseFields p value validate =
     (if length value = 1 then
        let list = cleanSliceString (split_value p value)
        in case (case validate of None \<Rightarrow> None | Some f \<Rightarrow> validate_each f (map VString list)) of
             Some e \<Rightarrow> (Err e, p)
           | None \<Rightarrow> (Ok, p\<lparr>fields_fld := list\<rparr>)
      else (Err ErrBadFormat, p))"

text \<open>
  \<open>parseOffset\<close> and \<open>parseLimit\<close> assign the number \<open>Atoi\<close> returns before they look
  at its error, so a failed conversion overwrites the field too.
\<close>

definition parseOffset ::
  "QueryParser \<Rightarrow> string list \<Rightarrow> ValidationFunc option \<Rightarrow> outcome \<times> QueryParser" where
  "parseOffset p value validate =
     (if length value \<noteq> 1 then (Err ErrBadFormat, p)
      else if length (hd value) = 0 then (Ok, p)
      else
        let (n, err) = Atoi (hd value); p' = p\<lparr>offset := n\<rparr>
        in case err of
             Some k \<Rightarrow> (Err (NumError ''Atoi'' (hd value) k), p')
           | None \<Rightarrow>
               (case validate of
                  None \<Rightarrow> (Ok, p')
                | Some f \<Rightarrow> (case f (VInt (offset p')) of Some e \<Rightarrow> (Err e, p') | None \<Rightarrow> (Ok, p'))))"

definition parseLimit ::
  "QueryParser \<Rightarrow> string list \<Rightarrow> ValidationFunc option \<Rightarrow> outcome \<times> QueryParser" where
  "parseLimit p value validate =
     (if length value \<noteq> 1 then (Err ErrBadFormat, p)
      else if length (hd value) = 0 then (Ok, p)
      else
        let (n, err) = Atoi (hd value); p' = p\<lparr>limit := n\<rparr>
        in case err of
             Some k \<Rightarrow> (Err (NumError ''Atoi'' (hd value) k), p')
           | None \<Rightarrow>
               (case validate of
                  None \<Rightarrow> (Ok, p')
                | Some f \<Rightarrow> (case f (VInt (limit p')) of Some e \<Rightarrow> (Err e, p') | None \<Rightarrow> (Ok, p'))))"

subsection \<open>Filters\<close>

definition methods :: "string list" where
  "methods = [MethodEQ, MethodNE, MethodGT, MethodLT, MethodGTE, MethodLTE, MethodLIKE,
     MethodNOT, MethodIN]"

text \<open>
  Modelled from the spec: \<open>parseFilterKey\<close> is not under src/. The spec gives the
  grammar \<open>NAME[':'METHOD[':'INDEX]]\<close>: the method, when written, is one of the nine method
  names as written, and is \<open>EQ\<close> otherwise; the index is any token and is not kept; an
  empty name, an unknown method and more than three segments are \<open>BadFormat\<close>. The filter
  comes back with no value yet.
\<close>

definition parseFilterKey :: "string \<Rightarrow> error + Filter" where
  "parseFilterKey key =
     (case Split key '':'' of
        [n] \<Rightarrow>
          if n = [] then Inl ErrBadFormat
          else Inr \<lparr>name = n, method_fld = MethodEQ, val = VNil\<rparr>
      | [n, m] \<Rightarrow>
          if n = [] \<or> m \<notin> set methods then Inl ErrBadFormat
          else Inr \<lparr>name = n, method_fld = m, val = VNil\<rparr>
      | [n, m, i] \<Rightarrow>
          if n = [] \<or> m \<notin> set methods then Inl ErrBadFormat
          else Inr \<lparr>name = n, method_fld = m, val = VNil\<rparr>
      | _ \<Rightarrow> Inl ErrBadFormat)"

text \<open>\<open>strconv.ParseBool\<close>.\<close>

definition ParseBool :: "string \<Rightarrow> bool option" where
  "ParseBool s =
     (if s \<in> {''1'', ''t'', ''T'', ''TRUE'', ''true'', ''True''} then Some True
      else if s \<in> {''0'', ''f'', ''F'', ''FALSE'', ''false'', ''False''} then Some False
      else None)"

text \<open>A decimal literal: an optional sign, digits, and an optional fraction.\<close>

definition is_decimal :: "string \<Rightarrow> bool" where
  "is_decimal s =
     (let body = (if s \<noteq> [] \<and> (hd s = CHR ''+'' \<or> hd s = CHR ''-'') then tl s else s);
          whole = takeWhile is_digit body;
          rest = dropWhile is_digit body
      in whole \<noteq> [] \<and> (rest = [] \<or> (hd rest = CHR ''.'' \<and> tl rest \<noteq> [] \<and> list_all is_digit (tl rest))))"

text \<open>
  Modelled from the spec: \<open>parseFilterValue\<close> is not under src/. The spec has it
  \<^item> split the value on the delimiter when it is a single raw value that contains the
    delimiter, and take the raw values as they are otherwise;
  \<^item> take all the tokens for \<open>IN\<close> and require a single token for the other methods
    (the spec names no error for this; \<open>BadFormat\<close> is its error for malformed input);
  \<^item> coerce each token to the resolved type \<open>string\<close>, \<open>int\<close>, \<open>float\<close> or \<open>bool\<close>, a
    failure being a conversion error of that type that names the key (any other type token is
    read as \<open>string\<close>, the default type);
  \<^item> call the validation function, if any, on the coerced value, or on each element of the
    sequence, an error of the function being returned as it is;
  \<^item> append the filter, its value stored as coerced (a \<open>LIKE\<close> value keeps its \<open>*\<close>).
\<close>

definition coerce :: "string \<Rightarrow> string \<Rightarrow> string \<Rightarrow> error + val" where
  "coerce ty key tok =
     (if ty = ''int'' then
        (case Atoi tok of (n, None) \<Rightarrow> Inr (VInt n) | (n, Some k) \<Rightarrow> Inl (ConversionError ty key))
      else if ty = ''float'' then
        (if is_decimal tok then Inr (VFloat tok) else Inl (ConversionError ty key))
      else if ty = ''bool'' then
        (case ParseBool tok of Some b \<Rightarrow> Inr (VBool b) | None \<Rightarrow> Inl (ConversionError ty key))
      else Inr (VString tok))"

fun coerce_each :: "string \<Rightarrow> string \<Rightarrow> string list \<Rightarrow> error + val list" where
  "coerce_each ty key [] = Inr []"
| "coerce_each ty key (tok # toks) =
     (case coerce ty key tok of
        Inl e \<Rightarrow> Inl e
      | Inr v \<Rightarrow> (case coerce_each ty key toks of Inl e \<Rightarrow> Inl e | Inr vs \<Rightarrow> Inr (v # vs)))"

definition parseFilterValue ::
  "QueryParser \<Rightarrow> Filter \<Rightarrow> string \<Rightarrow> string list \<Rightarrow> ValidationFunc option
     \<Rightarrow> outcome \<times> QueryParser" where
  "parseFilterValue p flt ty value validate =
     (let list = (if length value = 1 \<and> Contains (hd value) (delimiter p)
                  then Split (hd value) (delimiter p) else value)
      in if method_fld flt = MethodIN then
           (case coerce_each ty (name flt) list of
              Inl e \<Rightarrow> (Err e, p)
            | Inr vs \<Rightarrow>
                (case (case validate of None \<Rightarrow> None | Some f \<Rightarrow> validate_each f vs) of
                   Some e \<Rightarrow> (Err e, p)
                 | None \<Rightarrow> (Ok, p\<lparr>filters := filters p @ [flt\<lparr>val := VList vs\<rparr>]\<rparr>)))
         else if length list \<noteq> 1 then (Err ErrBadFormat, p)
         else
           (case coerce ty (name flt) (hd list) of
              Inl e \<Rightarrow> (Err e, p)
            | Inr v \<Rightarrow>
                (case (case validate of None \<Rightarrow> None | Some f \<Rightarrow> f v) of
                   Some e \<Rightarrow> (Err e, p)
                 | None \<Rightarrow> (Ok, p\<lparr>filters := filters p @ [flt\<lparr>val := v\<rparr>]\<rparr>))))"

subsection \<open>\<open>Parse\<close>\<close>

text \<open>
  The loop of \<open>Parse\<close> over the validation table, for the filter name \<open>nm\<close>. The state
  is \<open>allowed\<close>, \<open>validationFunc\<close> and \<open>_type\<close>; the loop stops at the first entry
  that allows the name. A key with a colon splits into two pieces at least (lemma
  \<open>Split_Contains_length\<close> below), so \<open>split[0]\<close> and \<open>split[1]\<close> are read in range.
  The first argument is the table in the order in which this loop yields it.
\<close>

fun resolve ::
  "Validations \<Rightarrow> string \<Rightarrow> bool \<times> ValidationFunc option \<times> string
     \<Rightarrow> bool \<times> ValidationFunc option \<times> string" where
  "resolve [] nm st = st"
| "resolve ((k, v) # rest) nm (allowed, validationFunc, ty) =
     (if Contains k '':'' then
        (let split = Split k '':''
         in if split ! 0 = nm then (True, v, split ! 1)
            else resolve rest nm (allowed, validationFunc, ty))
      else if k = nm then (True, validationFunc, ty)
      else resolve rest nm (allowed, validationFunc, ty))"

text \<open>
  A \<open>range\<close> over a Go map yields the entries in an order that is not specified and that
  may change from one \<open>range\<close> to the next. \<open>Parse\<close> therefore takes the orders of its two
  loops as arguments: \<open>qs\<close> is \<open>p.query\<close> in the order in which the outer loop of this call
  yields it, and \<open>vs key\<close> is \<open>p.validations\<close> in the order in which the inner loop yields
  it while the filter key \<open>key\<close> is handled. An order of a map is a list with the same
  entries.
\<close>

definition enumerates :: "'a list \<Rightarrow> 'a list \<Rightarrow> bool" where
  "enumerates xs m = (mset xs = mset m)"

text \<open>
  The body of the loop of \<open>Parse\<close> for one entry of the query. The texts of the errors
  declared outside src/ are not known: \<open>txt\<close> is the method \<open>Error()\<close> that \<open>%v\<close>
  formats an error with.
\<close>

definition parse_key ::
  "(error \<Rightarrow> string) \<Rightarrow> (string \<Rightarrow> Validations) \<Rightarrow> QueryParser \<Rightarrow> string \<times> string list
     \<Rightarrow> outcome \<times> QueryParser" where
  "parse_key txt vs p kv =
     (let key = fst kv; value = snd kv
      in if ToUpper key = Some ''FIELDS'' then
           parseFields p value (lookup_validation (validations p) key)
         else if ToUpper key = Some ''OFFSET'' then
           parseOffset p value (lookup_validation (validations p) key)
         else if ToUpper key = Some ''LIMIT'' then
           parseLimit p value (lookup_validation (validations p) key)
         else if ToUpper key = Some ''SORT'' then
           parseSort p value (lookup_validation (validations p) key)
         else
           (case parseFilterKey key of
              Inl e \<Rightarrow> (Err e, p)
            | Inr flt \<Rightarrow>
                let (allowed, validationFunc, ty) =
                      resolve (vs key) (name flt)
                        (False, lookup_validation (validations p) (name flt), ''string'')
                in if \<not> allowed then
                     (if ignoreUnknown p then (Ok, p) else (Err ErrFilterNotAllowed, p))
                   else
                     (case parseFilterValue p flt ty value validationFunc of
                        (Err e, p') \<Rightarrow> (Err e, p'\<lparr>ErrorMessage := key @ '': '' @ txt e\<rparr>)
                      | r \<Rightarrow> r)))"

fun Parse_loop ::
  "(error \<Rightarrow> string) \<Rightarrow> (string \<Rightarrow> Validations) \<Rightarrow> QueryParser \<Rightarrow> (string \<times> string list) list
     \<Rightarrow> outcome \<times> QueryParser" where
  "Parse_loop txt vs p [] = (Ok, p)"
| "Parse_loop txt vs p (kv # rest) =
     (case parse_key txt vs p kv of
        (Ok, p') \<Rightarrow> Parse_loop txt vs p' rest
      | r \<Rightarrow> r)"

definition Parse ::
  "(error \<Rightarrow> string) \<Rightarrow> (string \<times> string list) list \<Rightarrow> (string \<Rightarrow> Validations) \<Rightarrow> QueryParser
     \<Rightarrow> outcome \<times> QueryParser" where
  "Parse txt qs vs p = Parse_loop txt vs p qs"

definition NewParse ::
  "(error \<Rightarrow> string) \<Rightarrow> (string \<times> string list) list \<Rightarrow> (string \<Rightarrow> Validations)
     \<Rightarrow> (string \<times> string list) list \<Rightarrow> Validations \<Rightarrow> outcome \<times> QueryParser" where
  "NewParse txt qs vs q v = Parse txt qs vs (New q v)"

text \<open>
  The order that yields the validation table as it is written, whatever the key, for the
  examples: a table with one entry has no other order.
\<close>

definition every_key :: "Validations \<Rightarrow> string \<Rightarrow> Validations" where
  "every_key v key = v"

text \<open>
  A validation function, when one is attached, accepts every value of the list.
\<close>

definition accepts :: "ValidationFunc option \<Rightarrow> val list \<Rightarrow> bool" where
  "accepts validate vs =
     (case validate of None \<Rightarrow> True | Some f \<Rightarrow> list_all (\<lambda>v. f v = None) vs)"

text \<open>
  The strings \<open>strconv.Atoi\<close> accepts, described without the loop: an optional sign
  followed by at least one decimal digit, the number written being an \<open>int64\<close>.
\<close>

definition dec_val :: "string \<Rightarrow> int" where
  "dec_val cs = foldl (\<lambda>n c. n * 10 + digit_val c) 0 cs"

definition unsigned_part :: "string \<Rightarrow> string" where
  "unsigned_part s = (if s \<noteq> [] \<and> (hd s = CHR ''+'' \<or> hd s = CHR ''-'') then tl s else s)"

definition signed_val :: "string \<Rightarrow> int" where
  "signed_val s =
     (if s \<noteq> [] \<and> hd s = CHR ''-'' then - dec_val (unsigned_part s) else dec_val (unsigned_part s))"

definition is_int64_literal :: "string \<Rightarrow> bool" where
  "is_int64_literal s =
     (unsigned_part s \<noteq> [] \<and> list_all is_digit (unsigned_part s) \<and>
      - (2 ^ 63) \<le> signed_val s \<and> signed_val s \<le> 2 ^ 63 - 1)"

text \<open>
  The sort directive a token stands for, as the spec words it: a leading \<open>-\<close> is
  descending, a leading \<open>+\<close> is ascending, the sign is stripped, and a token without a sign
  is ascending.
\<close>

definition directive :: "string \<Rightarrow> Sort" where
  "directive t =
     (if hd t = CHR ''-'' then \<lparr>sort_by = tl t, desc = True\<rparr>
      else if hd t = CHR ''+'' then \<lparr>sort_by = tl t, desc = False\<rparr>
      else \<lparr>sort_by = t, desc = False\<rparr>)"

text \<open>
  A validation-table key matches a field name when it is the name, or, for a key with a colon,
  when its first segment is the name. A query key is reserved when its upper-case form is one
  of the four reserved names.
\<close>

definition entry_matches :: "string \<Rightarrow> string \<Rightarrow> bool" where
  "entry_matches k nm = (if Contains k '':'' then Split k '':'' ! 0 = nm else k = nm)"

definition reserved :: "string \<Rightarrow> bool" where
  "reserved key =
     (ToUpper key \<in> {Some ''FIELDS'', Some ''OFFSET'', Some ''LIMIT'', Some ''SORT''})"

text \<open>
  The \<open>WHERE\<close> clause in the words of the spec. The filters that are rendered are those
  whose method is one of \<open>EQ\<close>, \<open>NE\<close>, \<open>GT\<close>, \<open>LT\<close>, \<open>GTE\<close>, \<open>LTE\<close>,
  \<open>LIKE\<close> and \<open>IN\<close>. The term of an \<open>IN\<close> filter is \<open>field IN (?, ?, \<dots>)\<close> with one
  placeholder per element of its value sequence (one for a value that is no sequence); the
  term of another filter is \<open>field OPERATOR ?\<close> with the operator of the table.
  \<open>qmarks\<close> counts the character \<open>?\<close> in a string.
\<close>

definition arity :: "val \<Rightarrow> nat" where
  "arity v = (case v of VList vs \<Rightarrow> length vs | _ \<Rightarrow> 1)"

definition rendered :: "Filter \<Rightarrow> bool" where
  "rendered f =
     (method_fld f \<in> {MethodEQ, MethodNE, MethodGT, MethodLT, MethodGTE, MethodLTE, MethodLIKE,
        MethodIN})"

definition where_term :: "Filter \<Rightarrow> string" where
  "where_term f =
     (if method_fld f = MethodIN then name f @ '' IN ('' @ placeholders (arity (val f)) @ '')''
      else name f @ '' '' @ TranslateMethods (method_fld f) @ '' ?'')"

definition qmarks :: "string \<Rightarrow> nat" where
  "qmarks s = count_list s CHR ''?''"

text \<open>The values that the type assertion \<open>filter.value.(string)\<close> of \<open>Args()\<close> lets through.\<close>

definition holds_string :: "val \<Rightarrow> bool" where
  "holds_string v = (case v of VString s \<Rightarrow> True | _ \<Rightarrow> False)"

text \<open>
  The examples that format no error text use an \<open>Error()\<close> method with the empty text.
\<close>

definition no_text :: "error \<Rightarrow> string" where
  "no_text e = []"

text \<open>
  Two runs of the parser side by side. \<open>same_config\<close> relates parsers that agree on what
  \<open>Parse\<close> reads and never writes. \<open>twin p q p1 q1\<close> relates a step from \<open>p\<close> to \<open>p1\<close>
  with a step from \<open>q\<close> to \<open>q1\<close> that appended the same sort directives and the same
  filters, and that either wrote the same fields list, offset and limit or left them alone.
\<close>

definition same_config :: "QueryParser \<Rightarrow> QueryParser \<Rightarrow> bool" where
  "same_config p q =
     (query p = query q \<and> validations p = validations q \<and> delimiter p = delimiter q \<and>
      ignoreUnknown p = ignoreUnknown q)"

definition twin :: "QueryParser \<Rightarrow> QueryParser \<Rightarrow> QueryParser \<Rightarrow> QueryParser \<Rightarrow> bool" where
  "twin p q p1 q1 =
     (same_config p p1 \<and> same_config q q1 \<and>
      (\<exists>S. sort_fld p1 = sort_fld p @ S \<and> sort_fld q1 = sort_fld q @ S) \<and>
      (\<exists>F. filters p1 = filters p @ F \<and> filters q1 = filters q @ F) \<and>
      (fields_fld p1 = fields_fld q1 \<or> fields_fld p1 = fields_fld p \<and> fields_fld q1 = fields_fld q) \<and>
      (offset p1 = offset q1 \<or> offset p1 = offset p \<and> offset q1 = offset q) \<and>
      (limit p1 = limit q1 \<or> limit p1 = limit p \<and> limit q1 = limit q))"


text \<open>
  What the order of the loops cannot change. \<open>is_key N\<close> holds of the query entries that
  \<open>Parse\<close> takes for the reserved name \<open>N\<close>. A parser is \<open>unambiguous\<close> when its query has
  at most one key for each of the four reserved names, and when, for each filter key of the
  query, at most one entry of the validation table matches the field name of the key.
\<close>

definition is_key :: "string \<Rightarrow> string \<times> string list \<Rightarrow> bool" where
  "is_key N kv = (ToUpper (fst kv) = Some N)"

definition one_spelling :: "(string \<times> string list) list \<Rightarrow> bool" where
  "one_spelling q =
     list_all (\<lambda>N. length (filter (is_key N) q) \<le> 1) [''FIELDS'', ''OFFSET'', ''LIMIT'', ''SORT'']"

definition one_entry :: "Validations \<Rightarrow> string \<times> string list \<Rightarrow> bool" where
  "one_entry v kv =
     (case parseFilterKey (fst kv) of
        Inl e \<Rightarrow> True
      | Inr flt \<Rightarrow> length (filter (\<lambda>e. entry_matches (fst e) (name flt)) v) \<le> 1)"

definition unambiguous :: "QueryParser \<Rightarrow> bool" where
  "unambiguous p =
     (one_spelling (query p) \<and>
      list_all (\<lambda>kv. reserved (fst kv) \<or> one_entry (validations p) kv) (query p))"

text \<open>
  What a successful step of the loop of \<open>Parse\<close> does with the fields list, the offset,
  the limit and the sort list, entry by entry: \<open>c\<close> is read for its delimiter only.
\<close>

definition fields_step :: "QueryParser \<Rightarrow> string \<times> string list \<Rightarrow> string list \<Rightarrow> string list" where
  "fields_step c kv a =
     (if is_key ''FIELDS'' kv then cleanSliceString (split_value c (snd kv)) else a)"

definition offset_step :: "string \<times> string list \<Rightarrow> int \<Rightarrow> int" where
  "offset_step kv a =
     (if is_key ''OFFSET'' kv \<and> hd (snd kv) \<noteq> [] then fst (Atoi (hd (snd kv))) else a)"

definition limit_step :: "string \<times> string list \<Rightarrow> int \<Rightarrow> int" where
  "limit_step kv a =
     (if is_key ''LIMIT'' kv \<and> hd (snd kv) \<noteq> [] then fst (Atoi (hd (snd kv))) else a)"

definition sort_step :: "QueryParser \<Rightarrow> string \<times> string list \<Rightarrow> Sort list" where
  "sort_step c kv =
     (if is_key ''SORT'' kv then map directive (cleanSliceString (split_value c (snd kv))) else [])"

section \<open>Facts about the helpers\<close>

lemmas eval_defs =
  Split_def split_on.simps explode.simps nat_str.simps split_value_def cleanSliceString_def
  trim_def is_space_def is_ascii_def cont_def parseSort_def parseFields_def parseOffset_def
  parseLimit_def Atoi_def is_digit_def digit_val_def parse_key_def Parse_def NewParse_def New_def
  SetQuery_def SetValidations_def defaults_def ToUpper.simps to_upper_char_def lookup_validation_def
  parseFilterKey_def methods_def Method_defs parseFilterValue_def coerce_def Where_def Args_def
  in_sql_def expand_placeholder_def placeholders_def TranslateMethods_def
  TranslateMethods_table_def Sort_def Fields_def Offset_def Limit_def int_str_def digit_char_def
  replace_star_def IgnoreUnknownFilters_def Delimiter_def every_key_def Let_def

lemma Contains_Nil [simp]: "Contains s []"
  by (cases s) simp_all

lemma split_on_no_sep:
  "sep \<noteq> [] \<Longrightarrow> \<not> Contains s sep \<Longrightarrow> split_on sep cur s = [rev cur @ s]"
proof (induction s arbitrary: cur)
  case Nil
  then show ?case by (simp add: split_on.simps)
next
  case (Cons c cs)
  from Cons.prems have np: "\<not> prefix sep (c # cs)" and nc: "\<not> Contains cs sep" by simp_all
  have "split_on sep cur (c # cs) = split_on sep (c # cur) cs"
    using np Cons.prems(1) by (subst split_on.simps) simp
  also have "\<dots> = [rev (c # cur) @ cs]"
    using Cons.IH [OF Cons.prems(1) nc] .
  finally show ?case by simp
qed

text \<open>
  \<open>parseSort\<close> and \<open>parseFields\<close> guard \<open>strings.Split\<close> with \<open>strings.Contains\<close>; the
  guard changes nothing, since a string without the separator splits into itself.
\<close>

lemma split_value_single: "split_value p [v] = Split v (delimiter p)"
proof (cases "delimiter p = []")
  case True
  then show ?thesis by (simp add: split_value_def)
next
  case False
  then show ?thesis
    by (simp add: split_value_def Split_def split_on_no_sep)
qed





text \<open>The pieces of an exploded string make up the string.\<close>

lemma rune_width_pos: "bs \<noteq> [] \<Longrightarrow> 1 \<le> rune_width bs"
  by (cases bs) (auto simp: Let_def)



section \<open>The projection list\<close>




section \<open>Reserved keys and their validation functions\<close>

text \<open>An example of \<open>strings.Split\<close> with an empty separator and of \<open>strings.ToUpper\<close>.\<close>

lemma Split_ToUpper_examples:
  "Split [CHR 0xC3, CHR 0xA9, CHR ''a''] [] = [[CHR 0xC3, CHR 0xA9], ''a'']"
  "ToUpper [CHR 0xC5, CHR 0xBF, CHR ''o'', CHR ''r'', CHR ''t''] = Some ''SORT''"
  "ToUpper [CHR 0xC3, CHR 0xA9] = None"
  by (simp_all add: Split_def explode.simps ToUpper.simps is_ascii_def to_upper_char_def)

text \<open>
  C9. A key is a reserved key when its upper-case form is \<open>FIELDS\<close>, \<open>OFFSET\<close>,
  \<open>LIMIT\<close> or \<open>SORT\<close>, but the validation function handed to its parser is the entry of
  the validation table at the key as the query writes it: the function stored there when the
  table holds the key, and the \<open>nil\<close> function when it does not. For the query key
  \<open>limit\<close> an entry stored under \<open>limit\<close> is found and applied, so that \<open>Parse\<close> fails
  with the error the function returns for \<open>5\<close>; an entry stored under \<open>LIMIT\<close> is not
  found, and the value \<open>5\<close> is accepted whatever the function says.
\<close>

theorem reserved_key_validation_lookup:
  "(ToUpper key = Some ''FIELDS'' \<longrightarrow>
      parse_key txt vs p (key, value) = parseFields p value (lookup_validation (validations p) key)) \<and>
   (ToUpper key = Some ''OFFSET'' \<longrightarrow>
      parse_key txt vs p (key, value) = parseOffset p value (lookup_validation (validations p) key)) \<and>
   (ToUpper key = Some ''LIMIT'' \<longrightarrow>
      parse_key txt vs p (key, value) = parseLimit p value (lookup_validation (validations p) key)) \<and>
   (ToUpper key = Some ''SORT'' \<longrightarrow>
      parse_key txt vs p (key, value) = parseSort p value (lookup_validation (validations p) key)) \<and>
   (map_of (validations p) key = Some f \<longrightarrow> lookup_validation (validations p) key = f) \<and>
   (map_of (validations p) key = None \<longrightarrow> lookup_validation (validations p) key = None) \<and>
   ToUpper ''limit'' = Some ''LIMIT'' \<and>
   lookup_validation [(''limit'', Some g)] ''limit'' = Some g \<and>
   lookup_validation [(''LIMIT'', Some g)] ''limit'' = None \<and>
   (g (VInt 5) = Some e \<longrightarrow>
      fst (NewParse txt [(''limit'', [''5''])] vs [(''limit'', [''5''])] [(''limit'', Some g)]) = Err e) \<and>
   (g (VInt 5) = None \<longrightarrow>
      fst (NewParse txt [(''limit'', [''5''])] vs [(''limit'', [''5''])] [(''limit'', Some g)]) = Ok) \<and>
   fst (NewParse txt [(''limit'', [''5''])] vs [(''limit'', [''5''])] [(''LIMIT'', Some g)]) = Ok \<and>
   limit (snd (NewParse txt [(''limit'', [''5''])] vs [(''limit'', [''5''])] [(''LIMIT'', Some g)])) = 5"
proof -
  have general:
    "ToUpper key = Some ''FIELDS'' \<longrightarrow>
       parse_key txt vs p (key, value) = parseFields p value (lookup_validation (validations p) key)"
    "ToUpper key = Some ''OFFSET'' \<longrightarrow>
       parse_key txt vs p (key, value) = parseOffset p value (lookup_validation (validations p) key)"
    "ToUpper key = Some ''LIMIT'' \<longrightarrow>
       parse_key txt vs p (key, value) = parseLimit p value (lookup_validation (validations p) key)"
    "ToUpper key = Some ''SORT'' \<longrightarrow>
       parse_key txt vs p (key, value) = parseSort p value (lookup_validation (validations p) key)"
    by (simp_all add: parse_key_def Let_def)
  have table:
    "map_of (validations p) key = Some f \<longrightarrow> lookup_validation (validations p) key = f"
    "map_of (validations p) key = None \<longrightarrow> lookup_validation (validations p) key = None"
    by (simp_all add: lookup_validation_def)
  have up: "ToUpper ''limit'' = Some ''LIMIT''"
    by (simp add: ToUpper.simps is_ascii_def to_upper_char_def)
  have look: "lookup_validation [(''limit'', Some g)] ''limit'' = Some g"
    "lookup_validation [(''LIMIT'', Some g)] ''limit'' = None"
    by (simp_all add: lookup_validation_def)
  have atoi: "Atoi ''5'' = (5, None)"
    by (simp add: Atoi_def is_digit_def digit_val_def)
  have found: "NewParse txt [(''limit'', [''5''])] vs [(''limit'', [''5''])] [(''limit'', Some g)] =
      (case g (VInt 5) of
         Some e \<Rightarrow> (Err e, (New [(''limit'', [''5''])] [(''limit'', Some g)])\<lparr>limit := 5\<rparr>)
       | None \<Rightarrow> (Ok, (New [(''limit'', [''5''])] [(''limit'', Some g)])\<lparr>limit := 5\<rparr>))"
    by (simp add: NewParse_def Parse_def New_def SetQuery_def SetValidations_def defaults_def
        parse_key_def Let_def up look parseLimit_def atoi split: option.splits)
  have missed: "NewParse txt [(''limit'', [''5''])] vs [(''limit'', [''5''])] [(''LIMIT'', Some g)] =
      (Ok, (New [(''limit'', [''5''])] [(''LIMIT'', Some g)])\<lparr>limit := 5\<rparr>)"
    by (simp add: NewParse_def Parse_def New_def SetQuery_def SetValidations_def defaults_def
        parse_key_def Let_def up look parseLimit_def atoi)
  have applied:
    "g (VInt 5) = Some e \<longrightarrow>
      fst (NewParse txt [(''limit'', [''5''])] vs [(''limit'', [''5''])] [(''limit'', Some g)]) = Err e"
    "g (VInt 5) = None \<longrightarrow>
      fst (NewParse txt [(''limit'', [''5''])] vs [(''limit'', [''5''])] [(''limit'', Some g)]) = Ok"
    by (simp_all add: found)
  have skipped:
    "fst (NewParse txt [(''limit'', [''5''])] vs [(''limit'', [''5''])] [(''LIMIT'', Some g)]) = Ok"
    "limit (snd (NewParse txt [(''limit'', [''5''])] vs [(''limit'', [''5''])] [(''LIMIT'', Some g)])) = 5"
    by (simp_all add: missed)
  from general table up look applied skipped show ?thesis by (intro conjI)
qed

theorem reserved_key_validation_lookup_witness:
  "ToUpper ''Sort'' = Some ''SORT'' \<and>
   parse_key no_text (every_key [])
       (New [] [(''Sort'', Some (\<lambda>v. Some (ValidationError ''no such column'')))]) (''Sort'', [''a'']) =
     parseSort (New [] [(''Sort'', Some (\<lambda>v. Some (ValidationError ''no such column'')))]) [''a'']
       (Some (\<lambda>v. Some (ValidationError ''no such column''))) \<and>
   fst (parse_key no_text (every_key [])
       (New [] [(''Sort'', Some (\<lambda>v. Some (ValidationError ''no such column'')))]) (''Sort'', [''a''])) =
     Err (ValidationError ''no such column'') \<and>
   fst (parse_key no_text (every_key [])
       (New [] [(''SORT'', Some (\<lambda>v. Some (ValidationError ''no such column'')))]) (''Sort'', [''a''])) = Ok \<and>
   fst (NewParse no_text [(''limit'', [''5''])] (every_key []) [(''limit'', [''5''])]
       [(''limit'', Some (\<lambda>v. Some (ValidationError ''too many'')))]) = Err (ValidationError ''too many'')"
  using reserved_key_validation_lookup
      [of "''Sort''" no_text "every_key []"
        "New [] [(''Sort'', Some (\<lambda>v. Some (ValidationError ''no such column'')))]" "[''a'']"
        "Some (\<lambda>v. Some (ValidationError ''no such column''))"
        "\<lambda>v. Some (ValidationError ''too many'')" "ValidationError ''too many''"]
    reserved_key_validation_lookup
      [of "''Sort''" no_text "every_key []"
        "New [] [(''SORT'', Some (\<lambda>v. Some (ValidationError ''no such column'')))]" "[''a'']"
        None "\<lambda>v. Some (ValidationError ''too many'')" "ValidationError ''too many''"]
  by (simp add: ToUpper.simps is_ascii_def to_upper_char_def New_def SetQuery_def SetValidations_def
      defaults_def parseSort_def split_value_def cleanSliceString_def trim_def is_space_def)

section \<open>\<open>OFFSET\<close> and \<open>LIMIT\<close>\<close>

lemma digit_val_nonneg: "is_digit c \<Longrightarrow> 0 \<le> digit_val c"
  by (simp add: is_digit_def digit_val_def Let_def)

lemma foldl_digits_mono:
  "0 \<le> n \<Longrightarrow> list_all is_digit cs \<Longrightarrow> n \<le> foldl (\<lambda>n c. n * 10 + digit_val c) n cs"
proof (induction cs arbitrary: n)
  case Nil
  then show ?case by simp
next
  case (Cons c cs)
  have d: "0 \<le> digit_val c" using Cons.prems(2) by (simp add: digit_val_nonneg)
  have "n \<le> n * 10 + digit_val c" using Cons.prems(1) d by simp
  also have "\<dots> \<le> foldl (\<lambda>n c. n * 10 + digit_val c) (n * 10 + digit_val c) cs"
    using Cons.prems d by (intro Cons.IH) simp_all
  finally show ?case by simp
qed

lemma ParseUint_loop_Inr:
  "0 \<le> n \<Longrightarrow> n \<le> 2 ^ 64 - 1 \<Longrightarrow>
   ParseUint_loop n cs = Inr u \<longleftrightarrow>
     list_all is_digit cs \<and> foldl (\<lambda>n c. n * 10 + digit_val c) n cs \<le> 2 ^ 64 - 1 \<and>
     u = foldl (\<lambda>n c. n * 10 + digit_val c) n cs"
proof (induction cs arbitrary: n)
  case Nil
  then show ?case by auto
next
  case (Cons c cs)
  show ?case
  proof (cases "is_digit c")
    case False
    then show ?thesis by simp
  next
    case True
    let ?n1 = "n * 10 + digit_val c"
    have n1: "0 \<le> ?n1" using Cons.prems True by (simp add: digit_val_nonneg)
    show ?thesis
    proof (cases "?n1 > 2 ^ 64 - 1")
      case over: True
      have "list_all is_digit cs \<Longrightarrow> ?n1 \<le> foldl (\<lambda>n c. n * 10 + digit_val c) ?n1 cs"
        using foldl_digits_mono [OF n1] .
      then show ?thesis using True over by (auto simp: Let_def)
    next
      case False
      then have "?n1 \<le> 2 ^ 64 - 1" by simp
      then show ?thesis using True False Cons.IH [OF n1] by (simp add: Let_def)
    qed
  qed
qed

lemma Atoi_success:
  "snd (Atoi s) = None \<longleftrightarrow> is_int64_literal s"
proof (cases "s = []")
  case True
  then show ?thesis by (simp add: Atoi_def is_int64_literal_def unsigned_part_def)
next
  case False
  have body: "(if hd s = CHR ''+'' \<or> hd s = CHR ''-'' then tl s else s) = unsigned_part s"
    using False by (simp add: unsigned_part_def)
  show ?thesis
  proof (cases "unsigned_part s = []")
    case True
    then show ?thesis using False body by (simp add: Atoi_def is_int64_literal_def Let_def)
  next
    case ne: False
    show ?thesis
    proof (cases "ParseUint_loop 0 (unsigned_part s)")
      case (Inl k)
      have "\<not> (list_all is_digit (unsigned_part s) \<and> dec_val (unsigned_part s) \<le> 2 ^ 64 - 1)"
        using ParseUint_loop_Inr [of 0 "unsigned_part s"] Inl by (auto simp: dec_val_def)
      then have "\<not> is_int64_literal s"
        by (auto simp: is_int64_literal_def signed_val_def split: if_splits)
      then show ?thesis using False body ne Inl
        by (cases k) (simp_all add: Atoi_def Let_def)
    next
      case (Inr u)
      have u: "list_all is_digit (unsigned_part s)" "u = dec_val (unsigned_part s)"
        using ParseUint_loop_Inr [of 0 "unsigned_part s" u] Inr by (simp_all add: dec_val_def)
      have u0: "0 \<le> u" using foldl_digits_mono [of 0 "unsigned_part s"] u by (simp add: dec_val_def)
      show ?thesis using False body ne Inr u u0
        by (auto simp: Atoi_def Let_def is_int64_literal_def signed_val_def)
    qed
  qed
qed

lemma Atoi_value: "is_int64_literal s \<Longrightarrow> fst (Atoi s) = signed_val s"
proof -
  assume lit: "is_int64_literal s"
  then have ne: "s \<noteq> []" "unsigned_part s \<noteq> []"
    by (auto simp: is_int64_literal_def unsigned_part_def)
  have body: "(if hd s = CHR ''+'' \<or> hd s = CHR ''-'' then tl s else s) = unsigned_part s"
    using ne by (simp add: unsigned_part_def)
  from lit have dig: "list_all is_digit (unsigned_part s)" by (simp add: is_int64_literal_def)
  have d0: "0 \<le> dec_val (unsigned_part s)"
    using foldl_digits_mono [of 0 "unsigned_part s"] dig by (simp add: dec_val_def)
  show ?thesis
  proof (cases "hd s = CHR ''-''")
    case True
    then have sv: "signed_val s = - dec_val (unsigned_part s)"
      using ne by (simp add: signed_val_def)
    then have up: "dec_val (unsigned_part s) \<le> 2 ^ 63"
      using lit by (simp add: is_int64_literal_def)
    then have "ParseUint_loop 0 (unsigned_part s) = Inr (dec_val (unsigned_part s))"
      using ParseUint_loop_Inr [of 0 "unsigned_part s" "dec_val (unsigned_part s)"] dig
      by (simp add: dec_val_def)
    then show ?thesis using ne body True sv up
      by (simp add: Atoi_def Let_def)
  next
    case False
    then have sv: "signed_val s = dec_val (unsigned_part s)"
      by (simp add: signed_val_def)
    then have up: "dec_val (unsigned_part s) \<le> 2 ^ 63 - 1"
      using lit by (simp add: is_int64_literal_def)
    then have "ParseUint_loop 0 (unsigned_part s) = Inr (dec_val (unsigned_part s))"
      using ParseUint_loop_Inr [of 0 "unsigned_part s" "dec_val (unsigned_part s)"] dig
      by (simp add: dec_val_def)
    then show ?thesis using ne body False sv up
      by (simp add: Atoi_def Let_def)
  qed
qed


lemma parseOffset_single:
  "v \<noteq> [] \<Longrightarrow>
   parseOffset p [v] validate =
     (case snd (Atoi v) of
        Some k \<Rightarrow> (Err (NumError ''Atoi'' v k), p\<lparr>offset := fst (Atoi v)\<rparr>)
      | None \<Rightarrow>
          (case (case validate of None \<Rightarrow> None | Some f \<Rightarrow> f (VInt (fst (Atoi v)))) of
             Some e \<Rightarrow> (Err e, p\<lparr>offset := fst (Atoi v)\<rparr>)
           | None \<Rightarrow> (Ok, p\<lparr>offset := fst (Atoi v)\<rparr>)))"
  by (cases "Atoi v") (auto simp: parseOffset_def Let_def split: option.splits)

lemma parseLimit_single:
  "v \<noteq> [] \<Longrightarrow>
   parseLimit p [v] validate =
     (case snd (Atoi v) of
        Some k \<Rightarrow> (Err (NumError ''Atoi'' v k), p\<lparr>limit := fst (Atoi v)\<rparr>)
      | None \<Rightarrow>
          (case (case validate of None \<Rightarrow> None | Some f \<Rightarrow> f (VInt (fst (Atoi v)))) of
             Some e \<Rightarrow> (Err e, p\<lparr>limit := fst (Atoi v)\<rparr>)
           | None \<Rightarrow> (Ok, p\<lparr>limit := fst (Atoi v)\<rparr>)))"
  by (cases "Atoi v") (auto simp: parseLimit_def Let_def split: option.splits)

lemma accepts_single:
  "accepts validate [x] \<longleftrightarrow> (case validate of None \<Rightarrow> None | Some f \<Rightarrow> f x) = None"
  by (simp add: accepts_def split: option.splits)

text \<open>
  The claim C3 has a single non-empty value parse exactly when it is a non-negative integer,
  and has the clause render as the empty string after an empty value.
  \<open>strconv.Atoi\<close> reads a sign: \<open>-5\<close> is parsed without error and stored, as offset
  and as limit, and \<open>Offset()\<close> and \<open>Limit()\<close> then render the empty string. An empty
  value leaves the parser as it was: on a parser whose offset is 7 the clause is still
  \<open>OFFSET 7\<close>.
\<close>

theorem negative_offset_accepted:
  "fst (parseOffset defaults [''-5''] None) = Ok \<and>
   offset (snd (parseOffset defaults [''-5''] None)) = - 5 \<and>
   Offset (snd (parseOffset defaults [''-5''] None)) = [] \<and>
   fst (parseLimit defaults [''-5''] None) = Ok \<and>
   limit (snd (parseLimit defaults [''-5''] None)) = - 5 \<and>
   Limit (snd (parseLimit defaults [''-5''] None)) = [] \<and>
   fst (parseOffset (defaults\<lparr>offset := 7\<rparr>) [[]] None) = Ok \<and>
   Offset (snd (parseOffset (defaults\<lparr>offset := 7\<rparr>) [[]] None)) = ''OFFSET 7''"
  by (simp add: parseOffset_def parseLimit_def Atoi_def is_digit_def digit_val_def Offset_def
      Limit_def defaults_def int_str_def nat_str.simps digit_char_def)

text \<open>
  C3, amended. For \<open>OFFSET\<close> and \<open>LIMIT\<close>: any number of raw values other than
  exactly one fails with \<open>ErrBadFormat\<close>; a single empty string is no error and changes
  nothing, so the clause renders as it did before, which is the empty string on a parser
  whose offset (or limit) was never set; a single non-empty value is parsed without error
  exactly when it is an optionally signed decimal integer in the range of a 64-bit \<open>int\<close>
  that the validation function, if one is attached, accepts; the number of such an integer is
  stored, and the clause renders \<open>OFFSET n\<close> (or \<open>LIMIT n\<close>) when the number is positive
  and the empty string when it is zero or negative; any other non-empty value fails with the
  conversion error of \<open>strconv.Atoi\<close>; after the value \<open>10\<close>, \<open>Offset()\<close> is
  \<open>OFFSET 10\<close> and \<open>Limit()\<close> is \<open>LIMIT 10\<close>.
\<close>

theorem offset_limit_parsing:
  "(length value \<noteq> 1 \<longrightarrow>
      parseOffset p value validate = (Err ErrBadFormat, p) \<and>
      parseLimit p value validate = (Err ErrBadFormat, p)) \<and>
   parseOffset p [[]] validate = (Ok, p) \<and> parseLimit p [[]] validate = (Ok, p) \<and>
   Offset (snd (parseOffset p [[]] validate)) = Offset p \<and>
   Limit (snd (parseLimit p [[]] validate)) = Limit p \<and>
   (offset p = 0 \<longrightarrow> Offset (snd (parseOffset p [[]] validate)) = []) \<and>
   (limit p = 0 \<longrightarrow> Limit (snd (parseLimit p [[]] validate)) = []) \<and>
   Offset (snd (parseOffset defaults [[]] validate)) = [] \<and>
   Limit (snd (parseLimit defaults [[]] validate)) = [] \<and>
   (v \<noteq> [] \<longrightarrow>
      (fst (parseOffset p [v] validate) = Ok \<longleftrightarrow>
         is_int64_literal v \<and> accepts validate [VInt (signed_val v)]) \<and>
      (fst (parseLimit p [v] validate) = Ok \<longleftrightarrow>
         is_int64_literal v \<and> accepts validate [VInt (signed_val v)]) \<and>
      (is_int64_literal v \<longrightarrow>
         offset (snd (parseOffset p [v] validate)) = signed_val v \<and>
         limit (snd (parseLimit p [v] validate)) = signed_val v \<and>
         Offset (snd (parseOffset p [v] validate)) =
           (if 0 < signed_val v then ''OFFSET '' @ int_str (signed_val v) else []) \<and>
         Limit (snd (parseLimit p [v] validate)) =
           (if 0 < signed_val v then ''LIMIT '' @ int_str (signed_val v) else [])) \<and>
      (\<not> is_int64_literal v \<longrightarrow>
         (\<exists>k. fst (parseOffset p [v] validate) = Err (NumError ''Atoi'' v k)) \<and>
         (\<exists>k. fst (parseLimit p [v] validate) = Err (NumError ''Atoi'' v k)))) \<and>
   Offset (snd (parseOffset p [''10''] None)) = ''OFFSET 10'' \<and>
   Limit (snd (parseLimit p [''10''] None)) = ''LIMIT 10''"
proof -
  have bad: "length value \<noteq> 1 \<longrightarrow>
      parseOffset p value validate = (Err ErrBadFormat, p) \<and>
      parseLimit p value validate = (Err ErrBadFormat, p)"
    by (simp add: parseOffset_def parseLimit_def)
  have empty: "parseOffset p [[]] validate = (Ok, p)" "parseLimit p [[]] validate = (Ok, p)"
    by (simp_all add: parseOffset_def parseLimit_def)
  have kept: "Offset (snd (parseOffset p [[]] validate)) = Offset p"
    "Limit (snd (parseLimit p [[]] validate)) = Limit p"
    "offset p = 0 \<longrightarrow> Offset (snd (parseOffset p [[]] validate)) = []"
    "limit p = 0 \<longrightarrow> Limit (snd (parseLimit p [[]] validate)) = []"
    by (simp_all add: empty Offset_def Limit_def)
  have fresh: "Offset (snd (parseOffset defaults [[]] validate)) = []"
    "Limit (snd (parseLimit defaults [[]] validate)) = []"
    by (simp_all add: parseOffset_def parseLimit_def Offset_def Limit_def defaults_def)
  have single: "v \<noteq> [] \<longrightarrow>
      (fst (parseOffset p [v] validate) = Ok \<longleftrightarrow>
         is_int64_literal v \<and> accepts validate [VInt (signed_val v)]) \<and>
      (fst (parseLimit p [v] validate) = Ok \<longleftrightarrow>
         is_int64_literal v \<and> accepts validate [VInt (signed_val v)]) \<and>
      (is_int64_literal v \<longrightarrow>
         offset (snd (parseOffset p [v] validate)) = signed_val v \<and>
         limit (snd (parseLimit p [v] validate)) = signed_val v \<and>
         Offset (snd (parseOffset p [v] validate)) =
           (if 0 < signed_val v then ''OFFSET '' @ int_str (signed_val v) else []) \<and>
         Limit (snd (parseLimit p [v] validate)) =
           (if 0 < signed_val v then ''LIMIT '' @ int_str (signed_val v) else [])) \<and>
      (\<not> is_int64_literal v \<longrightarrow>
         (\<exists>k. fst (parseOffset p [v] validate) = Err (NumError ''Atoi'' v k)) \<and>
         (\<exists>k. fst (parseLimit p [v] validate) = Err (NumError ''Atoi'' v k)))"
  proof
    assume ne: "v \<noteq> []"
    show "(fst (parseOffset p [v] validate) = Ok \<longleftrightarrow>
         is_int64_literal v \<and> accepts validate [VInt (signed_val v)]) \<and>
      (fst (parseLimit p [v] validate) = Ok \<longleftrightarrow>
         is_int64_literal v \<and> accepts validate [VInt (signed_val v)]) \<and>
      (is_int64_literal v \<longrightarrow>
         offset (snd (parseOffset p [v] validate)) = signed_val v \<and>
         limit (snd (parseLimit p [v] validate)) = signed_val v \<and>
         Offset (snd (parseOffset p [v] validate)) =
           (if 0 < signed_val v then ''OFFSET '' @ int_str (signed_val v) else []) \<and>
         Limit (snd (parseLimit p [v] validate)) =
           (if 0 < signed_val v then ''LIMIT '' @ int_str (signed_val v) else [])) \<and>
      (\<not> is_int64_literal v \<longrightarrow>
         (\<exists>k. fst (parseOffset p [v] validate) = Err (NumError ''Atoi'' v k)) \<and>
         (\<exists>k. fst (parseLimit p [v] validate) = Err (NumError ''Atoi'' v k)))"
    proof (cases "is_int64_literal v")
      case True
      then have a: "snd (Atoi v) = None" "fst (Atoi v) = signed_val v"
        by (simp_all add: Atoi_success Atoi_value)
      show ?thesis using True a
        by (simp add: parseOffset_single [OF ne] parseLimit_single [OF ne] accepts_single
            Offset_def Limit_def split: option.splits)
    next
      case False
      then obtain k where "snd (Atoi v) = Some k"
        using Atoi_success [of v] by (cases "snd (Atoi v)") simp_all
      then show ?thesis using False
        by (simp add: parseOffset_single [OF ne] parseLimit_single [OF ne])
    qed
  qed
  have ten: "Offset (snd (parseOffset p [''10''] None)) = ''OFFSET 10''"
    "Limit (snd (parseLimit p [''10''] None)) = ''LIMIT 10''"
    by (simp_all add: parseOffset_def parseLimit_def Atoi_def is_digit_def digit_val_def
        Offset_def Limit_def int_str_def nat_str.simps digit_char_def)
  from bad empty kept fresh single ten show ?thesis by (intro conjI)
qed

theorem offset_limit_parsing_witness:
  "parseOffset defaults [] None = (Err ErrBadFormat, defaults) \<and>
   is_int64_literal ''-5'' \<and>
   fst (parseOffset defaults [''-5''] None) = Ok \<and>
   offset (snd (parseOffset defaults [''-5''] None)) = - 5 \<and>
   Offset (snd (parseOffset defaults [''-5''] None)) = [] \<and>
   Limit (snd (parseLimit defaults [''-5''] None)) = [] \<and>
   Offset (snd (parseOffset defaults [[]] None)) = [] \<and>
   \<not> is_int64_literal ''1x'' \<and>
   (\<exists>k. fst (parseLimit defaults [''1x''] None) = Err (NumError ''Atoi'' ''1x'' k))"
  using offset_limit_parsing [of "[]" defaults None "''-5''"]
    offset_limit_parsing [of "[]" defaults None "''1x''"]
  by (simp add: is_int64_literal_def unsigned_part_def signed_val_def dec_val_def is_digit_def
      digit_val_def accepts_def defaults_def)

section \<open>\<open>SORT\<close>\<close>

lemma parseSort_loop_accepted:
  "\<forall>t \<in> set ts. t \<noteq> [] \<Longrightarrow>
   accepts validate (map (\<lambda>t. VString (sort_by (directive t))) ts) \<Longrightarrow>
   parseSort_loop p ts validate = (Ok, p\<lparr>sort_fld := sort_fld p @ map directive ts\<rparr>)"
proof (induction ts arbitrary: p)
  case Nil
  then show ?case by simp
next
  case (Cons t ts)
  let ?p' = "p\<lparr>sort_fld := sort_fld p @ [directive t]\<rparr>"
  have ne: "t \<noteq> []" and rest: "\<forall>t \<in> set ts. t \<noteq> []" using Cons.prems(1) by simp_all
  have acc: "accepts validate (map (\<lambda>t. VString (sort_by (directive t))) ts)"
    and here: "(case validate of None \<Rightarrow> None | Some f \<Rightarrow> f (VString (sort_by (directive t)))) = None"
    using Cons.prems(2) by (simp_all add: accepts_def split: option.splits)
  have step: "parseSort_loop p (t # ts) validate = parseSort_loop ?p' ts validate"
    using ne here by (cases validate) (auto simp: directive_def Let_def split: option.splits)
  show ?case
    unfolding step Cons.IH [OF rest acc] by simp
qed

text \<open>
  The claim C6 has every value split and every token turned into a directive.
  \<open>parseSort\<close> hands each name to the validation function before it appends the
  directive, and returns the error of the function: with a function that rejects \<open>b\<close>, the
  value \<open>a,b,c\<close> appends the directive of \<open>a\<close> only. And \<open>parseSort\<close> reads \<open>v[0]\<close>
  of each token: on an empty token, as the empty value gives and as \<open>a,,b\<close> gives between
  its commas, the index is out of range and \<open>parseSort\<close> panics.
\<close>

theorem sort_tokens_not_appended:
  "parseSort defaults [''a,b,c'']
       (Some (\<lambda>v. if v = VString ''b'' then Some (ValidationError ''denied'') else None)) =
     (Err (ValidationError ''denied''), defaults\<lparr>sort_fld := [\<lparr>sort_by = ''a'', desc = False\<rparr>]\<rparr>) \<and>
   fst (parseSort defaults [[]] None) = Panics \<and>
   fst (parseSort defaults [''a,,b''] None) = Panics \<and>
   sort_fld (snd (parseSort defaults [''a,,b''] None)) = [\<lparr>sort_by = ''a'', desc = False\<rparr>]"
  by (simp add: parseSort_def split_value_def Split_def split_on.simps cleanSliceString_def
      trim_def is_space_def defaults_def)

text \<open>
  C6, amended. \<open>parseSort\<close> fails with \<open>ErrBadFormat\<close> unless it is given exactly one
  raw value. Given one value it splits it on the delimiter, and when no trimmed token is
  empty and the names pass the validation function (if one is attached), it appends the
  directive of every token, in token order, to the sort list: a leading \<open>-\<close> is descending,
  a leading \<open>+\<close> is ascending, the sign is stripped, and a token without a sign is
  ascending. The value \<open>-name,+age\<close> with the delimiter \<open>,\<close> gives the sort list \<open>name\<close>
  descending, \<open>age\<close> ascending, and \<open>Sort()\<close> renders \<open>ORDER BY name DESC, age\<close>.
\<close>

theorem parseSort_directives:
  "(length value \<noteq> 1 \<longrightarrow> parseSort p value validate = (Err ErrBadFormat, p)) \<and>
   ((\<forall>t \<in> set (cleanSliceString (Split v (delimiter p))). t \<noteq> []) \<and>
    accepts validate
      (map (\<lambda>t. VString (sort_by (directive t))) (cleanSliceString (Split v (delimiter p)))) \<longrightarrow>
    parseSort p [v] validate =
      (Ok, p\<lparr>sort_fld := sort_fld p @ map directive (cleanSliceString (Split v (delimiter p)))\<rparr>)) \<and>
   directive ''-name'' = \<lparr>sort_by = ''name'', desc = True\<rparr> \<and>
   directive ''+age'' = \<lparr>sort_by = ''age'', desc = False\<rparr> \<and>
   directive ''age'' = \<lparr>sort_by = ''age'', desc = False\<rparr> \<and>
   fst (parseSort defaults [''-name,+age''] None) = Ok \<and>
   sort_fld (snd (parseSort defaults [''-name,+age''] None)) =
     [\<lparr>sort_by = ''name'', desc = True\<rparr>, \<lparr>sort_by = ''age'', desc = False\<rparr>] \<and>
   Sort (snd (parseSort defaults [''-name,+age''] None)) = ''ORDER BY name DESC, age''"
proof -
  have bad: "length value \<noteq> 1 \<longrightarrow> parseSort p value validate = (Err ErrBadFormat, p)"
    by (simp add: parseSort_def)
  have gen: "(\<forall>t \<in> set (cleanSliceString (Split v (delimiter p))). t \<noteq> []) \<and>
    accepts validate
      (map (\<lambda>t. VString (sort_by (directive t))) (cleanSliceString (Split v (delimiter p)))) \<longrightarrow>
    parseSort p [v] validate =
      (Ok, p\<lparr>sort_fld := sort_fld p @ map directive (cleanSliceString (Split v (delimiter p)))\<rparr>)"
    by (simp add: parseSort_def split_value_single parseSort_loop_accepted)
  have dir: "directive ''-name'' = \<lparr>sort_by = ''name'', desc = True\<rparr>"
    "directive ''+age'' = \<lparr>sort_by = ''age'', desc = False\<rparr>"
    "directive ''age'' = \<lparr>sort_by = ''age'', desc = False\<rparr>"
    by (simp_all add: directive_def)
  have run: "parseSort defaults [''-name,+age''] None =
      (Ok, defaults\<lparr>sort_fld := [\<lparr>sort_by = ''name'', desc = True\<rparr>,
                                    \<lparr>sort_by = ''age'', desc = False\<rparr>]\<rparr>)"
    by (simp add: parseSort_def split_value_def Split_def split_on.simps cleanSliceString_def
        trim_def is_space_def defaults_def)
  have render: "Sort (defaults\<lparr>sort_fld := [\<lparr>sort_by = ''name'', desc = True\<rparr>,
                                    \<lparr>sort_by = ''age'', desc = False\<rparr>]\<rparr>) = ''ORDER BY name DESC, age''"
    by (simp add: Sort_def)
  show ?thesis using bad gen dir run render by simp
qed

theorem parseSort_directives_witness:
  "parseSort defaults [] None = (Err ErrBadFormat, defaults) \<and>
   cleanSliceString (Split ''a; -b'' '';'') = [''a'', ''-b''] \<and>
   parseSort (Delimiter defaults '';'') [''a; -b''] None =
     (Ok, (Delimiter defaults '';'')\<lparr>sort_fld :=
        [\<lparr>sort_by = ''a'', desc = False\<rparr>, \<lparr>sort_by = ''b'', desc = True\<rparr>]\<rparr>)"
  using parseSort_directives [of "[]" defaults None "''a; -b''"]
    parseSort_directives [of "[]" "Delimiter defaults '';''" None "''a; -b''"]
  by (simp add: Delimiter_def defaults_def Split_def split_on.simps cleanSliceString_def
      trim_def is_space_def accepts_def directive_def)


section \<open>Filters the validation table does not know\<close>

lemma enumerates_set: "enumerates xs m \<Longrightarrow> set xs = set m"
  unfolding enumerates_def by (rule mset_eq_setD)

lemma enumerates_Nil [simp]: "enumerates xs [] \<longleftrightarrow> xs = []"
  by (simp add: enumerates_def)

lemma enumerates_refl [simp]: "enumerates m m"
  by (simp add: enumerates_def)






section \<open>The parse error message\<close>

text \<open>
  C7. \<open>Parse\<close> writes \<open>ErrorMessage\<close> only where it handles a filter key. When the
  validation function attached to \<open>sort\<close> rejects the field name \<open>name\<close>, \<open>Parse\<close>
  returns the error and \<open>ErrorMessage\<close> is still empty; when the function attached to the
  filter \<open>name\<close> rejects the value, \<open>Parse\<close> returns the error and \<open>ErrorMessage\<close> is
  the key, a colon and the text of the error. The query and the table have one entry
  each, so there is one order to go through them.
\<close>

theorem sort_validation_error_not_annotated:
  "fst (NewParse txt [(''sort'', [''name''])]
          (every_key [(''sort'', Some (\<lambda>v. Some (ValidationError ''denied'')))])
          [(''sort'', [''name''])]
          [(''sort'', Some (\<lambda>v. Some (ValidationError ''denied'')))]) =
     Err (ValidationError ''denied'') \<and>
   ErrorMessage (snd (NewParse txt [(''sort'', [''name''])]
          (every_key [(''sort'', Some (\<lambda>v. Some (ValidationError ''denied'')))])
          [(''sort'', [''name''])]
          [(''sort'', Some (\<lambda>v. Some (ValidationError ''denied'')))])) = [] \<and>
   fst (NewParse txt [(''name'', [''x''])]
          (every_key [(''name'', Some (\<lambda>v. Some (ValidationError ''denied'')))])
          [(''name'', [''x''])]
          [(''name'', Some (\<lambda>v. Some (ValidationError ''denied'')))]) =
     Err (ValidationError ''denied'') \<and>
   ErrorMessage (snd (NewParse txt [(''name'', [''x''])]
          (every_key [(''name'', Some (\<lambda>v. Some (ValidationError ''denied'')))])
          [(''name'', [''x''])]
          [(''name'', Some (\<lambda>v. Some (ValidationError ''denied'')))])) =
     ''name: '' @ txt (ValidationError ''denied'')"
  by (simp add: eval_defs)

section \<open>The \<open>WHERE\<close> clause\<close>

lemma Where_loop_acc: "Where_loop fs wh = wh @ Where_loop fs []"
proof (induction fs arbitrary: wh)
  case Nil
  then show ?case by simp
next
  case (Cons f fs)
  have IH1: "\<And>a b. Where_loop fs (a @ b) = (a @ b) @ Where_loop fs []"
    using Cons.IH by blast
  have IH2: "\<And>x. Where_loop fs [x] = [x] @ Where_loop fs []"
    using Cons.IH by blast
  show ?case
    using Cons.IH [of wh] by (simp add: IH1 IH2)
qed

lemma Args_loop_acc: "Args_loop fs acc = map_option (\<lambda>r. acc @ r) (Args_loop fs [])"
proof (induction fs arbitrary: acc)
  case Nil
  then show ?case by simp
next
  case (Cons f fs)
  have step: "\<And>x acc. Args_loop fs (acc @ x) = map_option (\<lambda>r. acc @ r) (Args_loop fs x)"
  proof -
    fix x acc
    show "Args_loop fs (acc @ x) = map_option (\<lambda>r. acc @ r) (Args_loop fs x)"
      using Cons.IH [of "acc @ x"] Cons.IH [of x]
      by (cases "Args_loop fs []") simp_all
  qed
  show ?case
    using step [of acc "[val f]"] step [of acc "snd (in_sql ''?'' (val f))"] step [of acc "[]"]
      step [of acc "[VString (replace_star s)]" for s]
    by (auto split: val.splits)
qed

lemma expand_placeholder_last:
  "CHR ''?'' \<notin> set post \<Longrightarrow>
   expand_placeholder (pre @ CHR ''?'' # post) n = pre @ placeholders n @ post"
proof -
  assume a: "CHR ''?'' \<notin> set post"
  have tw: "takeWhile (\<lambda>c. c \<noteq> CHR ''?'') (rev post @ CHR ''?'' # rev pre) = rev post"
    using a by (subst takeWhile_append2) auto
  have dw: "dropWhile (\<lambda>c. c \<noteq> CHR ''?'') (rev post @ CHR ''?'' # rev pre) = CHR ''?'' # rev pre"
    using a by (subst dropWhile_append2) auto
  show ?thesis
    by (simp add: expand_placeholder_def Let_def tw dw)
qed

lemma in_sql_Where:
  "fst (in_sql (nm @ '' '' @ TranslateMethods MethodIN @ '' (?)'') v) =
     nm @ '' IN ('' @ placeholders (arity v) @ '')''"
proof -
  have tm: "TranslateMethods MethodIN = ''IN''"
    by (simp add: TranslateMethods_def TranslateMethods_table_def Method_defs)
  have e: "\<And>n. expand_placeholder ((nm @ '' IN ('') @ CHR ''?'' # '')'') n =
      (nm @ '' IN ('') @ placeholders n @ '')''"
    by (rule expand_placeholder_last) simp
  have one: "placeholders (Suc 0) = ''?''" by (simp add: placeholders_def)
  show ?thesis
    using e by (cases v) (simp_all add: in_sql_def arity_def tm one)
qed

lemma Where_loop_terms: "Where_loop fs [] = map where_term (filter rendered fs)"
proof (induction fs)
  case Nil
  then show ?case by simp
next
  case (Cons f fs)
  have in_ne: "MethodIN \<notin> {MethodEQ, MethodNE, MethodGT, MethodLT, MethodGTE, MethodLTE, MethodLIKE}"
    by (simp add: Method_defs)
  show ?case
  proof (cases "method_fld f \<in> {MethodEQ, MethodNE, MethodGT, MethodLT, MethodGTE, MethodLTE, MethodLIKE}")
    case True
    then have ni: "method_fld f \<noteq> MethodIN" using in_ne by auto
    have r: "rendered f" using True by (auto simp: rendered_def)
    have "Where_loop (f # fs) [] =
        (name f @ '' '' @ TranslateMethods (method_fld f) @ '' ?'') # Where_loop fs []"
      using True Where_loop_acc [of fs "[name f @ '' '' @ TranslateMethods (method_fld f) @ '' ?'']"]
      by simp
    then show ?thesis using Cons r ni by (simp add: where_term_def)
  next
    case False
    show ?thesis
    proof (cases "method_fld f = MethodIN")
      case True
      have r: "rendered f" using True by (simp add: rendered_def)
      have neqs: "MethodIN \<noteq> MethodEQ" "MethodIN \<noteq> MethodNE" "MethodIN \<noteq> MethodGT"
        "MethodIN \<noteq> MethodLT" "MethodIN \<noteq> MethodGTE" "MethodIN \<noteq> MethodLTE"
        "MethodIN \<noteq> MethodLIKE"
        by (simp_all add: Method_defs)
      have "Where_loop (f # fs) [] =
          fst (in_sql (name f @ '' '' @ TranslateMethods MethodIN @ '' (?)'') (val f)) # Where_loop fs []"
        using True neqs
          Where_loop_acc [of fs "[fst (in_sql (name f @ '' '' @ TranslateMethods MethodIN @ '' (?)'') (val f))]"]
        by simp
      then show ?thesis using Cons r True in_sql_Where [of "name f" "val f"]
        by (simp add: where_term_def)
    next
      case ni: False
      have r: "\<not> rendered f" using False ni by (auto simp: rendered_def)
      show ?thesis using False ni r Cons by simp
    qed
  qed
qed

text \<open>
  The claim C2 has every method of the table rendered, \<open>NOT\<close> as \<open>field NOT ?\<close>. The
  switch of \<open>Where()\<close> has no case for \<open>NOT\<close>: the filter falls to \<open>default: continue\<close>
  and leaves no term, though the table does map \<open>NOT\<close> to \<open>NOT\<close>.
\<close>

theorem NOT_filter_not_rendered:
  "Where (defaults\<lparr>filters := [\<lparr>name = ''a'', method_fld = MethodNOT, val = VString ''x''\<rparr>]\<rparr>) = [] \<and>
   Where (defaults\<lparr>filters := [\<lparr>name = ''a'', method_fld = MethodNOT, val = VString ''x''\<rparr>]\<rparr>)
     \<noteq> ''a NOT ?'' \<and>
   TranslateMethods MethodNOT = ''NOT''"
  by (simp add: Where_def defaults_def Method_defs TranslateMethods_def TranslateMethods_table_def)

text \<open>
  C2, amended. For every filter list, \<open>Where()\<close> is the list, joined with \<open>AND\<close> and in
  filter-list order, of the terms of the filters whose method is \<open>EQ\<close>, \<open>NE\<close>, \<open>GT\<close>,
  \<open>LT\<close>, \<open>GTE\<close>, \<open>LTE\<close>, \<open>LIKE\<close> or \<open>IN\<close>: \<open>field OPERATOR ?\<close> with the operator
  of the table (\<open>=\<close>, \<open>!=\<close>, \<open>>\<close>, \<open><\<close>, \<open>>=\<close>, \<open><=\<close>, \<open>LIKE\<close>), and
  \<open>field IN (?, ?, \<dots>)\<close> with one placeholder per element of the value sequence for
  \<open>IN\<close>. A filter with the method \<open>NOT\<close> contributes no term.
\<close>

theorem Where_terms:
  "Where p = Join (map where_term (filter rendered (filters p))) '' AND '' \<and>
   TranslateMethods MethodEQ = ''='' \<and> TranslateMethods MethodNE = ''!='' \<and>
   TranslateMethods MethodGT = ''>'' \<and> TranslateMethods MethodLT = ''<'' \<and>
   TranslateMethods MethodGTE = ''>='' \<and> TranslateMethods MethodLTE = ''<='' \<and>
   TranslateMethods MethodLIKE = ''LIKE'' \<and>
   where_term \<lparr>name = nm, method_fld = MethodIN, val = VList vs\<rparr> =
     nm @ '' IN ('' @ Join (replicate (length vs) ''?'') '', '' @ '')'' \<and>
   \<not> rendered \<lparr>name = nm, method_fld = MethodNOT, val = v\<rparr>"
proof -
  have w: "Where p = Join (map where_term (filter rendered (filters p))) '' AND ''"
    by (cases "filters p = []") (simp_all add: Where_def Where_loop_terms)
  have t: "TranslateMethods MethodEQ = ''=''" "TranslateMethods MethodNE = ''!=''"
    "TranslateMethods MethodGT = ''>''" "TranslateMethods MethodLT = ''<''"
    "TranslateMethods MethodGTE = ''>=''" "TranslateMethods MethodLTE = ''<=''"
    "TranslateMethods MethodLIKE = ''LIKE''"
    by (simp_all add: TranslateMethods_def TranslateMethods_table_def Method_defs)
  have i: "where_term \<lparr>name = nm, method_fld = MethodIN, val = VList vs\<rparr> =
     nm @ '' IN ('' @ Join (replicate (length vs) ''?'') '', '' @ '')''"
    by (simp add: where_term_def arity_def placeholders_def)
  have n: "\<not> rendered \<lparr>name = nm, method_fld = MethodNOT, val = v\<rparr>"
    by (simp add: rendered_def Method_defs)
  from w t i n show ?thesis by (intro conjI)
qed


section \<open>Placeholders and arguments\<close>

lemma Args_loop_Cons:
  "Args_loop (f # fs) [] =
     (if method_fld f \<in> {MethodEQ, MethodNE, MethodGT, MethodLT, MethodGTE, MethodLTE}
      then map_option (\<lambda>r. val f # r) (Args_loop fs [])
      else if method_fld f = MethodLIKE
      then (case val f of
              VString v \<Rightarrow> map_option (\<lambda>r. VString (replace_star v) # r) (Args_loop fs [])
            | _ \<Rightarrow> None)
      else if method_fld f = MethodIN
      then map_option (\<lambda>r. snd (in_sql ''?'' (val f)) @ r) (Args_loop fs [])
      else Args_loop fs [])"
  using Args_loop_acc [of fs "[val f]"] Args_loop_acc [of fs "snd (in_sql ''?'' (val f))"]
    Args_loop_acc [of fs "[VString (replace_star s)]" for s]
  by (simp split: val.splits)


lemma qmarks_Nil [simp]: "qmarks [] = 0"
  by (simp add: qmarks_def)

lemma qmarks_Cons [simp]: "qmarks (c # cs) = (if c = CHR ''?'' then 1 else 0) + qmarks cs"
  by (simp add: qmarks_def)

lemma qmarks_append [simp]: "qmarks (a @ b) = qmarks a + qmarks b"
  by (induction a) simp_all

lemma qmarks_0: "CHR ''?'' \<notin> set s \<Longrightarrow> qmarks s = 0"
  by (induction s) auto

lemma qmarks_Join: "qmarks sep = 0 \<Longrightarrow> qmarks (Join xs sep) = sum_list (map qmarks xs)"
  by (induction xs sep rule: Join.induct) simp_all

lemma qmarks_placeholders: "qmarks (placeholders n) = n"
proof -
  have "sum_list (map qmarks (replicate n ''?'')) = n"
    by (induction n) simp_all
  then show ?thesis
    by (simp add: placeholders_def qmarks_Join)
qed

lemma qmarks_where_term:
  "rendered f \<Longrightarrow>
   qmarks (where_term f) =
     qmarks (name f) + (if method_fld f = MethodIN then arity (val f) else 1)"
proof -
  assume r: "rendered f"
  have op: "method_fld f \<noteq> MethodIN \<Longrightarrow> qmarks (TranslateMethods (method_fld f)) = 0"
    using r by (auto simp: rendered_def TranslateMethods_def TranslateMethods_table_def
        Method_defs)
  show ?thesis
  proof (cases "method_fld f = MethodIN")
    case True
    then show ?thesis by (simp add: where_term_def qmarks_placeholders)
  next
    case False
    then show ?thesis using op by (simp add: where_term_def)
  qed
qed

lemma length_in_sql_params: "length (snd (in_sql q v)) = arity v"
  by (cases v) (simp_all add: in_sql_def arity_def)

lemma holds_string_iff: "holds_string v \<longleftrightarrow> (\<exists>s. v = VString s)"
  by (cases v) (simp_all add: holds_string_def)

lemma Args_loop_result:
  "(Args_loop fs [] = None \<longleftrightarrow>
      (\<exists>f \<in> set fs. method_fld f = MethodLIKE \<and> \<not> holds_string (val f))) \<and>
   (\<forall>args. Args_loop fs [] = Some args \<longrightarrow>
      length args =
        sum_list (map (\<lambda>f. if method_fld f = MethodIN then arity (val f) else 1)
          (filter rendered fs)))"
proof (induction fs)
  case Nil
  then show ?case by simp
next
  case (Cons f fs)
  have neqs: "MethodIN \<noteq> MethodEQ" "MethodIN \<noteq> MethodNE" "MethodIN \<noteq> MethodGT"
    "MethodIN \<noteq> MethodLT" "MethodIN \<noteq> MethodGTE" "MethodIN \<noteq> MethodLTE"
    "MethodIN \<noteq> MethodLIKE" "MethodLIKE \<noteq> MethodEQ" "MethodLIKE \<noteq> MethodNE"
    "MethodLIKE \<noteq> MethodGT" "MethodLIKE \<noteq> MethodLT" "MethodLIKE \<noteq> MethodGTE"
    "MethodLIKE \<noteq> MethodLTE"
    by (simp_all add: Method_defs)
  consider (six) "method_fld f \<in> {MethodEQ, MethodNE, MethodGT, MethodLT, MethodGTE, MethodLTE}"
    | (like) "method_fld f = MethodLIKE" | (inn) "method_fld f = MethodIN"
    | (other) "\<not> rendered f"
    by (auto simp: rendered_def)
  then show ?case
  proof cases
    case six
    then have "rendered f" "method_fld f \<noteq> MethodIN" "method_fld f \<noteq> MethodLIKE"
      using neqs by (auto simp: rendered_def)
    then show ?thesis using six Cons.IH
      by (auto simp add: Args_loop_Cons simp del: Args_loop.simps)
  next
    case like
    have r: "rendered f" using like by (simp add: rendered_def)
    show ?thesis
    proof (cases "holds_string (val f)")
      case True
      then obtain s where "val f = VString s" by (auto simp: holds_string_iff)
      then show ?thesis using like neqs r True Cons.IH
        by (auto simp add: Args_loop_Cons simp del: Args_loop.simps)
    next
      case False
      then have "Args_loop (f # fs) [] = None"
        using like neqs
        by (cases "val f") (simp_all add: Args_loop_Cons holds_string_def del: Args_loop.simps)
      then show ?thesis using like False by simp
    qed
  next
    case inn
    have "rendered f" using inn by (simp add: rendered_def)
    then show ?thesis using inn neqs Cons.IH
      by (auto simp add: Args_loop_Cons length_in_sql_params simp del: Args_loop.simps)
  next
    case other
    then have "method_fld f \<notin> {MethodEQ, MethodNE, MethodGT, MethodLT, MethodGTE, MethodLTE}"
      "method_fld f \<noteq> MethodLIKE" "method_fld f \<noteq> MethodIN"
      by (auto simp: rendered_def)
    then show ?thesis using other Cons.IH
      by (auto simp add: Args_loop_Cons simp del: Args_loop.simps)
  qed
qed

lemma qmarks_Where:
  "qmarks (Where p) =
     sum_list (map (\<lambda>f. qmarks (name f)) (filter rendered (filters p))) +
     sum_list (map (\<lambda>f. if method_fld f = MethodIN then arity (val f) else 1)
       (filter rendered (filters p)))"
proof -
  have sep: "qmarks '' AND '' = 0" by simp
  have "sum_list (map qmarks (map where_term (filter rendered (filters p)))) =
      sum_list (map (\<lambda>f. qmarks (name f) +
        (if method_fld f = MethodIN then arity (val f) else 1)) (filter rendered (filters p)))"
    unfolding map_map by (rule arg_cong [where f = sum_list], rule map_cong)
      (simp_all add: qmarks_where_term)
  then have "qmarks (Join (map where_term (filter rendered (filters p))) '' AND '') =
      sum_list (map (\<lambda>f. qmarks (name f)) (filter rendered (filters p))) +
      sum_list (map (\<lambda>f. if method_fld f = MethodIN then arity (val f) else 1)
        (filter rendered (filters p)))"
    by (simp only: qmarks_Join [OF sep] sum_list_addf)
  then show ?thesis
    by (cases "filters p = []") (simp_all add: Where_def Where_loop_terms)
qed

lemma sum_list_qmarks_0:
  "sum_list (map (\<lambda>f. qmarks (name f)) fs) = 0 \<longleftrightarrow> (\<forall>f \<in> set fs. CHR ''?'' \<notin> set (name f))"
proof -
  have "qmarks s = 0 \<longleftrightarrow> CHR ''?'' \<notin> set s" for s
    by (induction s) auto
  then show ?thesis by (induction fs) auto
qed

text \<open>
  The claim C1 counts the character \<open>?\<close> in \<open>Where()\<close> against the list of \<open>Args()\<close>.
  Field names go into the clause as they are written: with the field \<open>a?\<close> in the
  validation table, the query \<open>{"a?": ["x"]}\<close> parses, \<open>Where()\<close> is \<open>a? = ?\<close> with two
  \<open>?\<close>, and \<open>Args()\<close> has one element. And \<open>Args()\<close> does not always return: with the
  field \<open>id\<close> of type \<open>int\<close> in the table, the query \<open>{"id:LIKE": ["5"]}\<close> parses, the
  filter holds the integer 5, \<open>Where()\<close> is \<open>id LIKE ?\<close>, and the type assertion of
  \<open>Args()\<close> panics.
\<close>

theorem question_mark_in_field_name:
  "fst (NewParse no_text [(''a?'', [''x''])] (every_key [(''a?'', None)])
          [(''a?'', [''x''])] [(''a?'', None)]) = Ok \<and>
   filters (snd (NewParse no_text [(''a?'', [''x''])] (every_key [(''a?'', None)])
          [(''a?'', [''x''])] [(''a?'', None)])) =
     [\<lparr>name = ''a?'', method_fld = ''EQ'', val = VString ''x''\<rparr>] \<and>
   Where (snd (NewParse no_text [(''a?'', [''x''])] (every_key [(''a?'', None)])
          [(''a?'', [''x''])] [(''a?'', None)])) = ''a? = ?'' \<and>
   qmarks (Where (snd (NewParse no_text [(''a?'', [''x''])] (every_key [(''a?'', None)])
          [(''a?'', [''x''])] [(''a?'', None)]))) = 2 \<and>
   Args (snd (NewParse no_text [(''a?'', [''x''])] (every_key [(''a?'', None)])
          [(''a?'', [''x''])] [(''a?'', None)])) = Some [VString ''x''] \<and>
   fst (NewParse no_text [(''id:LIKE'', [''5''])] (every_key [(''id:int'', None)])
          [(''id:LIKE'', [''5''])] [(''id:int'', None)]) = Ok \<and>
   filters (snd (NewParse no_text [(''id:LIKE'', [''5''])] (every_key [(''id:int'', None)])
          [(''id:LIKE'', [''5''])] [(''id:int'', None)])) =
     [\<lparr>name = ''id'', method_fld = ''LIKE'', val = VInt 5\<rparr>] \<and>
   Where (snd (NewParse no_text [(''id:LIKE'', [''5''])] (every_key [(''id:int'', None)])
          [(''id:LIKE'', [''5''])] [(''id:int'', None)])) = ''id LIKE ?'' \<and>
   Args (snd (NewParse no_text [(''id:LIKE'', [''5''])] (every_key [(''id:int'', None)])
          [(''id:LIKE'', [''5''])] [(''id:int'', None)])) = None"
proof -
  have run: "NewParse no_text [(''a?'', [''x''])] (every_key [(''a?'', None)])
        [(''a?'', [''x''])] [(''a?'', None)] =
      (Ok, (New [(''a?'', [''x''])] [(''a?'', None)])\<lparr>filters :=
         [\<lparr>name = ''a?'', method_fld = ''EQ'', val = VString ''x''\<rparr>]\<rparr>)"
    by (simp add: eval_defs)
  have run2: "NewParse no_text [(''id:LIKE'', [''5''])] (every_key [(''id:int'', None)])
        [(''id:LIKE'', [''5''])] [(''id:int'', None)] =
      (Ok, (New [(''id:LIKE'', [''5''])] [(''id:int'', None)])\<lparr>filters :=
         [\<lparr>name = ''id'', method_fld = ''LIKE'', val = VInt 5\<rparr>]\<rparr>)"
    by (simp add: eval_defs)
  show ?thesis unfolding run run2
    by (simp add: Where_def Args_def Method_defs TranslateMethods_def TranslateMethods_table_def)
qed

text \<open>
  C1, amended. For every parser state, and so for every state a successful \<open>Parse()\<close>
  returns: \<open>Args()\<close> returns a list unless a \<open>LIKE\<close> filter holds a value that is no
  string, and then its type assertion panics. When \<open>Args()\<close> returns, the number of \<open>?\<close>
  in \<open>Where()\<close> is the length of that list plus the number of \<open>?\<close> in the field names
  of the rendered filters; so the two numbers are equal exactly when no rendered filter's
  field name contains \<open>?\<close>.
\<close>

theorem placeholders_match_args:
  "(Args p = None \<longleftrightarrow>
      (\<exists>f \<in> set (filters p). method_fld f = MethodLIKE \<and> \<not> holds_string (val f))) \<and>
   (\<forall>args. Args p = Some args \<longrightarrow>
      qmarks (Where p) =
        length args + sum_list (map (\<lambda>f. qmarks (name f)) (filter rendered (filters p))) \<and>
      (qmarks (Where p) = length args \<longleftrightarrow>
         (\<forall>f \<in> set (filters p). rendered f \<longrightarrow> CHR ''?'' \<notin> set (name f))))"
proof -
  have A: "Args p = Args_loop (filters p) []"
    by (cases "filters p = []") (simp_all add: Args_def)
  have none: "Args p = None \<longleftrightarrow>
      (\<exists>f \<in> set (filters p). method_fld f = MethodLIKE \<and> \<not> holds_string (val f))"
    unfolding A using Args_loop_result [of "filters p"] by blast
  have some: "qmarks (Where p) =
        length args + sum_list (map (\<lambda>f. qmarks (name f)) (filter rendered (filters p))) \<and>
      (qmarks (Where p) = length args \<longleftrightarrow>
         (\<forall>f \<in> set (filters p). rendered f \<longrightarrow> CHR ''?'' \<notin> set (name f)))"
    if "Args p = Some args" for args
  proof -
    have len: "length args =
        sum_list (map (\<lambda>f. if method_fld f = MethodIN then arity (val f) else 1)
          (filter rendered (filters p)))"
      using that Args_loop_result [of "filters p"] unfolding A by blast
    have eq: "qmarks (Where p) =
        length args + sum_list (map (\<lambda>f. qmarks (name f)) (filter rendered (filters p)))"
      using qmarks_Where [of p] len by simp
    have "qmarks (Where p) = length args \<longleftrightarrow>
        sum_list (map (\<lambda>f. qmarks (name f)) (filter rendered (filters p))) = 0"
      using eq by simp
    also have "\<dots> \<longleftrightarrow> (\<forall>f \<in> set (filters p). rendered f \<longrightarrow> CHR ''?'' \<notin> set (name f))"
      unfolding sum_list_qmarks_0 by auto
    finally show ?thesis using eq by simp
  qed
  from none some show ?thesis by blast
qed

theorem placeholders_match_args_witness:
  "Args (defaults\<lparr>filters :=
      [\<lparr>name = ''id'', method_fld = MethodIN, val = VList [VInt 1, VInt 2, VInt 3]\<rparr>,
       \<lparr>name = ''n'', method_fld = MethodLIKE, val = VString ''a*''\<rparr>]\<rparr>) =
     Some [VInt 1, VInt 2, VInt 3, VString ''a%''] \<and>
   Where (defaults\<lparr>filters :=
      [\<lparr>name = ''id'', method_fld = MethodIN, val = VList [VInt 1, VInt 2, VInt 3]\<rparr>,
       \<lparr>name = ''n'', method_fld = MethodLIKE, val = VString ''a*''\<rparr>]\<rparr>) =
     ''id IN (?, ?, ?) AND n LIKE ?'' \<and>
   qmarks (Where (defaults\<lparr>filters :=
      [\<lparr>name = ''id'', method_fld = MethodIN, val = VList [VInt 1, VInt 2, VInt 3]\<rparr>,
       \<lparr>name = ''n'', method_fld = MethodLIKE, val = VString ''a*''\<rparr>]\<rparr>)) = 4 \<and>
   rendered \<lparr>name = ''id'', method_fld = MethodIN, val = VList [VInt 1, VInt 2, VInt 3]\<rparr> \<and>
   rendered \<lparr>name = ''n'', method_fld = MethodLIKE, val = VString ''a*''\<rparr> \<and>
   Args (defaults\<lparr>filters := [\<lparr>name = ''n'', method_fld = MethodLIKE, val = VInt 5\<rparr>]\<rparr>) = None"
  using placeholders_match_args [of "defaults\<lparr>filters :=
      [\<lparr>name = ''id'', method_fld = MethodIN, val = VList [VInt 1, VInt 2, VInt 3]\<rparr>,
       \<lparr>name = ''n'', method_fld = MethodLIKE, val = VString ''a*''\<rparr>]\<rparr>"]
    placeholders_match_args [of "defaults\<lparr>filters :=
      [\<lparr>name = ''n'', method_fld = MethodLIKE, val = VInt 5\<rparr>]\<rparr>"]
  by (simp add: defaults_def Args_def Where_def Method_defs in_sql_def expand_placeholder_def
      placeholders_def TranslateMethods_def TranslateMethods_table_def replace_star_def
      rendered_def holds_string_def)

section \<open>\<open>LIKE\<close> and its wildcard\<close>









section \<open>Parsing twice\<close>

lemma same_config_refl [simp]: "same_config p p"
  by (simp add: same_config_def)

lemma twin_refl [simp]: "twin p q p q"
  by (simp add: twin_def)

lemma twin_trans: "twin p q p1 q1 \<Longrightarrow> twin p1 q1 p2 q2 \<Longrightarrow> twin p q p2 q2"
proof -
  assume a: "twin p q p1 q1" and b: "twin p1 q1 p2 q2"
  from a obtain S1 F1 where 1: "sort_fld p1 = sort_fld p @ S1" "sort_fld q1 = sort_fld q @ S1"
    "filters p1 = filters p @ F1" "filters q1 = filters q @ F1"
    by (auto simp: twin_def)
  from b obtain S2 F2 where 2: "sort_fld p2 = sort_fld p1 @ S2" "sort_fld q2 = sort_fld q1 @ S2"
    "filters p2 = filters p1 @ F2" "filters q2 = filters q1 @ F2"
    by (auto simp: twin_def)
  have s: "\<exists>S. sort_fld p2 = sort_fld p @ S \<and> sort_fld q2 = sort_fld q @ S"
    using 1 2 by (intro exI [of _ "S1 @ S2"]) simp
  have f: "\<exists>F. filters p2 = filters p @ F \<and> filters q2 = filters q @ F"
    using 1 2 by (intro exI [of _ "F1 @ F2"]) simp
  have c: "same_config p p2" "same_config q q2"
    using a b by (auto simp: twin_def same_config_def)
  have rest: "(fields_fld p2 = fields_fld q2 \<or> fields_fld p2 = fields_fld p \<and> fields_fld q2 = fields_fld q) \<and>
      (offset p2 = offset q2 \<or> offset p2 = offset p \<and> offset q2 = offset q) \<and>
      (limit p2 = limit q2 \<or> limit p2 = limit p \<and> limit q2 = limit q)"
    using a b unfolding twin_def by auto
  show ?thesis unfolding twin_def using s f c rest by blast
qed

lemma twin_sort_step:
  "twin p q (p\<lparr>sort_fld := sort_fld p @ [d]\<rparr>) (q\<lparr>sort_fld := sort_fld q @ [d]\<rparr>)"
  by (simp add: twin_def same_config_def)

lemma parseSort_loop_twin:
  "parseSort_loop p ts v = (r, p1) \<Longrightarrow>
   \<exists>q1. parseSort_loop q ts v = (r, q1) \<and> twin p q p1 q1"
proof (induction ts arbitrary: p q)
  case Nil
  then show ?case by simp
next
  case (Cons t ts)
  show ?case
  proof (cases "t = []")
    case True
    then show ?thesis using Cons.prems by simp
  next
    case False
    define d where "d = (if hd t = CHR ''-'' then \<lparr>sort_by = tl t, desc = True\<rparr>
      else if hd t = CHR ''+'' then \<lparr>sort_by = tl t, desc = False\<rparr>
      else \<lparr>sort_by = t, desc = False\<rparr>)"
    have unf: "\<And>x. parseSort_loop x (t # ts) v =
        (case (case v of None \<Rightarrow> None | Some f \<Rightarrow> f (VString (sort_by d))) of
           Some e \<Rightarrow> (Err e, x)
         | None \<Rightarrow> parseSort_loop (x\<lparr>sort_fld := sort_fld x @ [d]\<rparr>) ts v)"
      using False by (auto simp: d_def Let_def split: option.splits)
    show ?thesis
    proof (cases "case v of None \<Rightarrow> None | Some f \<Rightarrow> f (VString (sort_by d))")
      case (Some e)
      then show ?thesis using Cons.prems unfolding unf by simp
    next
      case None
      then have run: "parseSort_loop (p\<lparr>sort_fld := sort_fld p @ [d]\<rparr>) ts v = (r, p1)"
        using Cons.prems unfolding unf by simp
      from Cons.IH [OF run, of "q\<lparr>sort_fld := sort_fld q @ [d]\<rparr>"] obtain q1 where
        q1: "parseSort_loop (q\<lparr>sort_fld := sort_fld q @ [d]\<rparr>) ts v = (r, q1)"
        "twin (p\<lparr>sort_fld := sort_fld p @ [d]\<rparr>) (q\<lparr>sort_fld := sort_fld q @ [d]\<rparr>) p1 q1"
        by blast
      have "twin p q p1 q1" using twin_trans [OF twin_sort_step q1(2)] .
      then show ?thesis using q1(1) None unfolding unf by simp
    qed
  qed
qed

lemma parseSort_twin:
  "same_config p q \<Longrightarrow> parseSort p value v = (r, p1) \<Longrightarrow>
   \<exists>q1. parseSort q value v = (r, q1) \<and> twin p q p1 q1"
proof -
  assume c: "same_config p q" and run: "parseSort p value v = (r, p1)"
  have sv: "split_value p value = split_value q value"
    using c by (simp add: same_config_def split_value_def)
  show ?thesis
  proof (cases "length value \<noteq> 1")
    case True
    then show ?thesis using run by (auto simp: parseSort_def)
  next
    case False
    then have "parseSort_loop p (cleanSliceString (split_value p value)) v = (r, p1)"
      using run by (simp add: parseSort_def)
    from parseSort_loop_twin [OF this, of q] show ?thesis
      using False sv by (simp add: parseSort_def)
  qed
qed

lemma twin_fields: "twin p q (p\<lparr>fields_fld := l\<rparr>) (q\<lparr>fields_fld := l\<rparr>)"
  by (simp add: twin_def same_config_def)

lemma twin_offset: "twin p q (p\<lparr>offset := n\<rparr>) (q\<lparr>offset := n\<rparr>)"
  by (simp add: twin_def same_config_def)

lemma twin_limit: "twin p q (p\<lparr>limit := n\<rparr>) (q\<lparr>limit := n\<rparr>)"
  by (simp add: twin_def same_config_def)

lemma twin_filters:
  "twin p q (p\<lparr>filters := filters p @ [f]\<rparr>) (q\<lparr>filters := filters q @ [f]\<rparr>)"
  by (simp add: twin_def same_config_def)

lemma twin_ErrorMessage:
  "twin p q p1 q1 \<Longrightarrow> twin p q (p1\<lparr>ErrorMessage := m\<rparr>) (q1\<lparr>ErrorMessage := m'\<rparr>)"
  by (simp add: twin_def same_config_def)

lemma parseFields_twin:
  "same_config p q \<Longrightarrow> parseFields p value v = (r, p1) \<Longrightarrow>
   \<exists>q1. parseFields q value v = (r, q1) \<and> twin p q p1 q1"
proof -
  assume c: "same_config p q" and run: "parseFields p value v = (r, p1)"
  have sv: "split_value q value = split_value p value"
    using c by (simp add: same_config_def split_value_def)
  define list where "list = cleanSliceString (split_value p value)"
  define vr where "vr = (case v of None \<Rightarrow> None | Some f \<Rightarrow> validate_each f (map VString list))"
  have shape: "\<And>x. split_value x value = split_value p value \<Longrightarrow>
      parseFields x value v =
        (if length value = 1
         then (case vr of Some e \<Rightarrow> (Err e, x) | None \<Rightarrow> (Ok, x\<lparr>fields_fld := list\<rparr>))
         else (Err ErrBadFormat, x))"
    unfolding list_def vr_def by (simp add: parseFields_def Let_def)
  show ?thesis
  proof (cases "length value = 1")
    case False
    then show ?thesis using run shape [of p] shape [OF sv] by auto
  next
    case True
    show ?thesis
    proof (cases vr)
      case None
      then show ?thesis using True run shape [of p] shape [OF sv] twin_fields [of p q list]
        by auto
    next
      case (Some e)
      then show ?thesis using True run shape [of p] shape [OF sv] by auto
    qed
  qed
qed

lemma parseOffset_twin:
  "same_config p q \<Longrightarrow> parseOffset p value v = (r, p1) \<Longrightarrow>
   \<exists>q1. parseOffset q value v = (r, q1) \<and> twin p q p1 q1"
proof -
  assume run: "parseOffset p value v = (r, p1)"
  define n where "n = fst (Atoi (hd value))"
  define res where "res =
    (case snd (Atoi (hd value)) of
       Some k \<Rightarrow> Err (NumError ''Atoi'' (hd value) k)
     | None \<Rightarrow> (case (case v of None \<Rightarrow> None | Some f \<Rightarrow> f (VInt n)) of
                  Some e \<Rightarrow> Err e | None \<Rightarrow> Ok))"
  have shape: "\<And>x. parseOffset x value v =
      (if length value \<noteq> 1 then (Err ErrBadFormat, x)
       else if length (hd value) = 0 then (Ok, x)
       else (res, x\<lparr>offset := n\<rparr>))"
    unfolding n_def res_def
    by (cases "Atoi (hd value)") (simp add: parseOffset_def Let_def split: option.splits)
  show ?thesis
    using run twin_offset [of p q n] unfolding shape by (auto split: if_splits)
qed

lemma parseLimit_twin:
  "same_config p q \<Longrightarrow> parseLimit p value v = (r, p1) \<Longrightarrow>
   \<exists>q1. parseLimit q value v = (r, q1) \<and> twin p q p1 q1"
proof -
  assume run: "parseLimit p value v = (r, p1)"
  define n where "n = fst (Atoi (hd value))"
  define res where "res =
    (case snd (Atoi (hd value)) of
       Some k \<Rightarrow> Err (NumError ''Atoi'' (hd value) k)
     | None \<Rightarrow> (case (case v of None \<Rightarrow> None | Some f \<Rightarrow> f (VInt n)) of
                  Some e \<Rightarrow> Err e | None \<Rightarrow> Ok))"
  have shape: "\<And>x. parseLimit x value v =
      (if length value \<noteq> 1 then (Err ErrBadFormat, x)
       else if length (hd value) = 0 then (Ok, x)
       else (res, x\<lparr>limit := n\<rparr>))"
    unfolding n_def res_def
    by (cases "Atoi (hd value)") (simp add: parseLimit_def Let_def split: option.splits)
  show ?thesis
    using run twin_limit [of p q n] unfolding shape by (auto split: if_splits)
qed

lemma parseFilterValue_twin:
  "same_config p q \<Longrightarrow> parseFilterValue p flt ty value v = (r, p1) \<Longrightarrow>
   \<exists>q1. parseFilterValue q flt ty value v = (r, q1) \<and> twin p q p1 q1"
proof -
  assume c: "same_config p q" and run: "parseFilterValue p flt ty value v = (r, p1)"
  have d: "delimiter q = delimiter p" using c by (simp add: same_config_def)
  define list where "list = (if length value = 1 \<and> Contains (hd value) (delimiter p)
                  then Split (hd value) (delimiter p) else value)"
  define res :: "error + val" where "res =
    (if method_fld flt = MethodIN then
       (case coerce_each ty (name flt) list of
          Inl e \<Rightarrow> Inl e
        | Inr vs \<Rightarrow>
            (case (case v of None \<Rightarrow> None | Some f \<Rightarrow> validate_each f vs) of
               Some e \<Rightarrow> Inl e | None \<Rightarrow> Inr (VList vs)))
     else if length list \<noteq> 1 then Inl ErrBadFormat
     else
       (case coerce ty (name flt) (hd list) of
          Inl e \<Rightarrow> Inl e
        | Inr x \<Rightarrow>
            (case (case v of None \<Rightarrow> None | Some f \<Rightarrow> f x) of
               Some e \<Rightarrow> Inl e | None \<Rightarrow> Inr x)))"
  have shape: "\<And>x. delimiter x = delimiter p \<Longrightarrow>
      parseFilterValue x flt ty value v =
        (case res of Inl e \<Rightarrow> (Err e, x)
         | Inr w \<Rightarrow> (Ok, x\<lparr>filters := filters x @ [flt\<lparr>val := w\<rparr>]\<rparr>))"
    unfolding list_def res_def
    by (simp add: parseFilterValue_def Let_def split: sum.splits option.splits)
  show ?thesis
  proof (cases res)
    case (Inl e)
    then show ?thesis using run shape [of p] shape [OF d] by auto
  next
    case (Inr w)
    then show ?thesis
      using run shape [of p] shape [OF d] twin_filters [of p q "flt\<lparr>val := w\<rparr>"] by auto
  qed
qed


lemma parse_key_twin:
  assumes c: "same_config p q" and run: "parse_key txt vs1 p kv = (r, p1)"
    and same: "\<And>flt st. \<not> reserved (fst kv) \<Longrightarrow> parseFilterKey (fst kv) = Inr flt \<Longrightarrow>
      resolve (vs1 (fst kv)) (name flt) st = resolve (vs2 (fst kv)) (name flt) st"
  shows "\<exists>q1. parse_key txt vs2 q kv = (r, q1) \<and> twin p q p1 q1"
proof -
  obtain key "value" where kv: "kv = (key, value)" by (cases kv)
  have v: "validations q = validations p" and i: "ignoreUnknown q = ignoreUnknown p"
    using c by (simp_all add: same_config_def)
  consider (fields) "ToUpper key = Some ''FIELDS''" | (offset) "ToUpper key = Some ''OFFSET''"
    | (limit) "ToUpper key = Some ''LIMIT''" | (sort) "ToUpper key = Some ''SORT''"
    | (filter) "\<not> reserved key"
    by (auto simp: reserved_def)
  then show ?thesis
  proof cases
    case fields
    then show ?thesis
      using run parseFields_twin [OF c, of "value" "lookup_validation (validations p) key" r p1]
      by (simp add: kv parse_key_def v)
  next
    case offset
    then show ?thesis
      using run parseOffset_twin [OF c, of "value" "lookup_validation (validations p) key" r p1]
      by (simp add: kv parse_key_def v)
  next
    case limit
    then show ?thesis
      using run parseLimit_twin [OF c, of "value" "lookup_validation (validations p) key" r p1]
      by (simp add: kv parse_key_def v)
  next
    case sort
    then show ?thesis
      using run parseSort_twin [OF c, of "value" "lookup_validation (validations p) key" r p1]
      by (simp add: kv parse_key_def v)
  next
    case filter
    then have nr: "ToUpper key \<noteq> Some ''FIELDS''" "ToUpper key \<noteq> Some ''OFFSET''"
      "ToUpper key \<noteq> Some ''LIMIT''" "ToUpper key \<noteq> Some ''SORT''"
      by (simp_all add: reserved_def)
    show ?thesis
    proof (cases "parseFilterKey key")
      case (Inl e)
      then show ?thesis using run nr by (auto simp: kv parse_key_def)
    next
      case (Inr flt)
      obtain allowed vf ty where res: "resolve (vs1 key) (name flt)
          (False, lookup_validation (validations p) (name flt), ''string'') = (allowed, vf, ty)"
        by (cases "resolve (vs1 key) (name flt)
          (False, lookup_validation (validations p) (name flt), ''string'')") auto
      have res2: "resolve (vs2 key) (name flt)
          (False, lookup_validation (validations p) (name flt), ''string'') = (allowed, vf, ty)"
        using same [of flt] filter Inr res by (simp add: kv)
      have shape: "\<And>x vs. validations x = validations p \<Longrightarrow> ignoreUnknown x = ignoreUnknown p \<Longrightarrow>
          resolve (vs key) (name flt)
            (False, lookup_validation (validations p) (name flt), ''string'') = (allowed, vf, ty) \<Longrightarrow>
          parse_key txt vs x kv =
            (if \<not> allowed then (if ignoreUnknown p then (Ok, x) else (Err ErrFilterNotAllowed, x))
             else (case parseFilterValue x flt ty value vf of
                     (Err e, x') \<Rightarrow> (Err e, x'\<lparr>ErrorMessage := key @ '': '' @ txt e\<rparr>)
                   | r' \<Rightarrow> r'))"
        using nr Inr by (simp add: kv parse_key_def Let_def)
      note sp = shape [of p vs1, OF refl refl res] and sq = shape [of q vs2, OF v i res2]
      show ?thesis
      proof (cases allowed)
        case False
        then show ?thesis using run sp sq by auto
      next
        case True
        obtain r0 p0 where r0: "parseFilterValue p flt ty value vf = (r0, p0)"
          by (cases "parseFilterValue p flt ty value vf")
        from parseFilterValue_twin [OF c r0] obtain q0 where
          q0: "parseFilterValue q flt ty value vf = (r0, q0)" "twin p q p0 q0"
          by blast
        show ?thesis
        proof (cases r0)
          case (Err e)
          have "twin p q (p0\<lparr>ErrorMessage := key @ '': '' @ txt e\<rparr>)
              (q0\<lparr>ErrorMessage := key @ '': '' @ txt e\<rparr>)"
            using q0(2) by (rule twin_ErrorMessage)
          then show ?thesis
            using True Err run r0 q0(1) sp sq by auto
        next
          case Ok
          then show ?thesis
            using True run r0 q0 sp sq by auto
        next
          case Panics
          then show ?thesis
            using True run r0 q0 sp sq by auto
        qed
      qed
    qed
  qed
qed

lemma twin_same_config: "same_config p q \<Longrightarrow> twin p q p1 q1 \<Longrightarrow> same_config p1 q1"
  by (auto simp: twin_def same_config_def)


text \<open>A successful step, entry by entry.\<close>

lemma same_config_trans: "same_config p q \<Longrightarrow> same_config q r \<Longrightarrow> same_config p r"
  by (simp add: same_config_def)

lemma same_config_split_value: "same_config p q \<Longrightarrow> split_value p value = split_value q value"
  by (simp add: same_config_def split_value_def)

lemma same_config_steps:
  "same_config p q \<Longrightarrow> sort_step p = sort_step q \<and> fields_step p = fields_step q"
  by (auto simp: fun_eq_iff sort_step_def fields_step_def same_config_split_value)

lemma parseSort_loop_Ok:
  "parseSort_loop p ts v = (Ok, p1) \<Longrightarrow> p1 = p\<lparr>sort_fld := sort_fld p @ map directive ts\<rparr>"
proof (induction ts arbitrary: p)
  case Nil
  then show ?case by simp
next
  case (Cons t ts)
  have ne: "t \<noteq> []" using Cons.prems by (auto split: if_splits)
  have "parseSort_loop (p\<lparr>sort_fld := sort_fld p @ [directive t]\<rparr>) ts v = (Ok, p1)"
    using Cons.prems ne
    by (auto simp: directive_def Let_def split: option.splits if_splits)
  from Cons.IH [OF this] show ?case by simp
qed

lemma parseFilterValue_keeps:
  "parseFilterValue p flt ty value v = (r, p1) \<Longrightarrow> \<exists>F. p1 = p\<lparr>filters := F\<rparr>"
proof -
  assume run: "parseFilterValue p flt ty value v = (r, p1)"
  have triv: "\<exists>F. x = x\<lparr>filters := F\<rparr>" for x :: QueryParser
    by (rule exI [of _ "filters x"]) simp
  show ?thesis
    using run
    by (auto simp: parseFilterValue_def Let_def split: if_splits sum.splits option.splits
        intro: triv)
qed

lemma parse_key_Ok_effect:
  assumes run: "parse_key txt vs p kv = (Ok, p1)"
  shows "same_config p p1 \<and> sort_fld p1 = sort_fld p @ sort_step p kv \<and>
    fields_fld p1 = fields_step p kv (fields_fld p) \<and>
    offset p1 = offset_step kv (offset p) \<and> limit p1 = limit_step kv (limit p)"
proof -
  obtain key "value" where kv: "kv = (key, value)" by (cases kv)
  consider (fields) "ToUpper key = Some ''FIELDS''" | (offset) "ToUpper key = Some ''OFFSET''"
    | (limit) "ToUpper key = Some ''LIMIT''" | (sort) "ToUpper key = Some ''SORT''"
    | (filter) "\<not> reserved key"
    by (auto simp: reserved_def)
  then show ?thesis
  proof cases
    case fields
    then have "parseFields p value (lookup_validation (validations p) key) = (Ok, p1)"
      using run by (simp add: kv parse_key_def)
    then have "p1 = p\<lparr>fields_fld := cleanSliceString (split_value p value)\<rparr>"
      by (auto simp: parseFields_def Let_def split: if_splits option.splits)
    then show ?thesis using fields
      by (simp add: kv same_config_def sort_step_def fields_step_def offset_step_def
          limit_step_def is_key_def)
  next
    case offset
    then have "parseOffset p value (lookup_validation (validations p) key) = (Ok, p1)"
      using run by (simp add: kv parse_key_def)
    then have "p1 = (if hd value = [] then p else p\<lparr>offset := fst (Atoi (hd value))\<rparr>)"
      by (cases "Atoi (hd value)")
        (auto simp: parseOffset_def Let_def split: if_splits option.splits)
    then show ?thesis using offset
      by (simp add: kv same_config_def sort_step_def fields_step_def offset_step_def
          limit_step_def is_key_def)
  next
    case limit
    then have "parseLimit p value (lookup_validation (validations p) key) = (Ok, p1)"
      using run by (simp add: kv parse_key_def)
    then have "p1 = (if hd value = [] then p else p\<lparr>limit := fst (Atoi (hd value))\<rparr>)"
      by (cases "Atoi (hd value)")
        (auto simp: parseLimit_def Let_def split: if_splits option.splits)
    then show ?thesis using limit
      by (simp add: kv same_config_def sort_step_def fields_step_def offset_step_def
          limit_step_def is_key_def)
  next
    case sort
    then have "parseSort p value (lookup_validation (validations p) key) = (Ok, p1)"
      using run by (simp add: kv parse_key_def)
    then have "parseSort_loop p (cleanSliceString (split_value p value))
        (lookup_validation (validations p) key) = (Ok, p1)"
      by (auto simp: parseSort_def split: if_splits)
    from parseSort_loop_Ok [OF this] show ?thesis using sort
      by (simp add: kv same_config_def sort_step_def fields_step_def offset_step_def
          limit_step_def is_key_def)
  next
    case filter
    then have nr: "ToUpper key \<noteq> Some ''FIELDS''" "ToUpper key \<noteq> Some ''OFFSET''"
      "ToUpper key \<noteq> Some ''LIMIT''" "ToUpper key \<noteq> Some ''SORT''"
      by (simp_all add: reserved_def)
    have "\<exists>F. p1 = p\<lparr>filters := F\<rparr>"
    proof (cases "parseFilterKey key")
      case (Inl e)
      then show ?thesis using run nr by (auto simp: kv parse_key_def)
    next
      case (Inr flt)
      obtain allowed vf ty where res: "resolve (vs key) (name flt)
          (False, lookup_validation (validations p) (name flt), ''string'') = (allowed, vf, ty)"
        by (cases "resolve (vs key) (name flt)
          (False, lookup_validation (validations p) (name flt), ''string'')") auto
      have shape: "parse_key txt vs p kv =
            (if \<not> allowed then (if ignoreUnknown p then (Ok, p) else (Err ErrFilterNotAllowed, p))
             else (case parseFilterValue p flt ty value vf of
                     (Err e, x') \<Rightarrow> (Err e, x'\<lparr>ErrorMessage := key @ '': '' @ txt e\<rparr>)
                   | r' \<Rightarrow> r'))"
        using nr Inr res by (simp add: kv parse_key_def Let_def)
      have same: "p = p\<lparr>filters := filters p\<rparr>" by simp
      show ?thesis
      proof (cases allowed)
        case False
        then have "p1 = p" using run unfolding shape by (auto split: if_splits)
        then show ?thesis using same by blast
      next
        case True
        obtain r0 p0 where r0: "parseFilterValue p flt ty value vf = (r0, p0)"
          by (cases "parseFilterValue p flt ty value vf")
        then have "p1 = p0" using run True unfolding shape by (cases r0) auto
        then show ?thesis using parseFilterValue_keeps [OF r0] by simp
      qed
    qed
    then obtain F where "p1 = p\<lparr>filters := F\<rparr>" by blast
    then show ?thesis using nr
      by (simp add: kv same_config_def sort_step_def fields_step_def offset_step_def
          limit_step_def is_key_def)
  qed
qed

lemma Parse_loop_Ok_effect:
  "Parse_loop txt vs p kvs = (Ok, p') \<Longrightarrow>
   same_config p p' \<and> sort_fld p' = sort_fld p @ concat (map (sort_step p) kvs) \<and>
   fields_fld p' = foldl (\<lambda>a kv. fields_step p kv a) (fields_fld p) kvs \<and>
   offset p' = foldl (\<lambda>a kv. offset_step kv a) (offset p) kvs \<and>
   limit p' = foldl (\<lambda>a kv. limit_step kv a) (limit p) kvs"
proof (induction kvs arbitrary: p)
  case Nil
  then show ?case by simp
next
  case (Cons kv kvs)
  obtain r0 p0 where r0: "parse_key txt vs p kv = (r0, p0)"
    by (cases "parse_key txt vs p kv")
  have ok: "r0 = Ok" using Cons.prems r0 by (cases r0) auto
  then have rest: "Parse_loop txt vs p0 kvs = (Ok, p')" using Cons.prems r0 by simp
  note e = parse_key_Ok_effect [OF r0 [unfolded ok]]
  note s = same_config_steps [of p p0]
  from Cons.IH [OF rest] e s show ?case
    by (auto intro: same_config_trans)
qed

lemma Parse_loop_keys_Ok:
  "Parse_loop txt vs p kvs = (Ok, p') \<Longrightarrow>
   \<forall>kv \<in> set kvs. \<exists>s s1. same_config p s \<and> parse_key txt vs s kv = (Ok, s1)"
proof (induction kvs arbitrary: p)
  case Nil
  then show ?case by simp
next
  case (Cons kv kvs)
  obtain r0 p0 where r0: "parse_key txt vs p kv = (r0, p0)"
    by (cases "parse_key txt vs p kv")
  have ok: "r0 = Ok" using Cons.prems r0 by (cases r0) auto
  then have rest: "Parse_loop txt vs p0 kvs = (Ok, p')" using Cons.prems r0 by simp
  have c: "same_config p p0" using parse_key_Ok_effect [OF r0 [unfolded ok]] by simp
  have "\<exists>s s1. same_config p s \<and> parse_key txt vs s kv = (Ok, s1)"
    using r0 ok same_config_refl by blast
  moreover have "\<forall>x \<in> set kvs. \<exists>s s1. same_config p s \<and> parse_key txt vs s x = (Ok, s1)"
    using Cons.IH [OF rest] c by (blast intro: same_config_trans)
  ultimately show ?case by simp
qed

lemma Parse_loop_any_order:
  "\<forall>kv \<in> set kvs. \<forall>q. same_config p q \<longrightarrow> (\<exists>q1. parse_key txt vs q kv = (Ok, q1)) \<Longrightarrow>
   same_config p q \<Longrightarrow> \<exists>q'. Parse_loop txt vs q kvs = (Ok, q')"
proof (induction kvs arbitrary: q)
  case Nil
  then show ?case by simp
next
  case (Cons kv kvs)
  from Cons.prems obtain q1 where q1: "parse_key txt vs q kv = (Ok, q1)" by auto
  have "same_config q q1" using parse_key_Ok_effect [OF q1] by simp
  then have c: "same_config p q1" using Cons.prems(2) by (blast intro: same_config_trans)
  have "\<forall>kv \<in> set kvs. \<forall>q. same_config p q \<longrightarrow> (\<exists>q1. parse_key txt vs q kv = (Ok, q1))"
    using Cons.prems(1) by simp
  from Cons.IH [OF this c] show ?case using q1 by simp
qed

text \<open>The loop over the validation table stops at the first entry that matches.\<close>

lemma resolve_filter:
  "resolve vs nm st = resolve (filter (\<lambda>e. entry_matches (fst e) nm) vs) nm st"
proof (induction vs)
  case Nil
  then show ?case by simp
next
  case (Cons kv vs)
  obtain k v where kv: "kv = (k, v)" by (cases kv)
  obtain a f t where st: "st = (a, f, t)" by (cases st)
  show ?case
  proof (cases "entry_matches k nm")
    case True
    then show ?thesis unfolding kv st
      by (auto simp: entry_matches_def Let_def split: if_splits)
  next
    case False
    then have "resolve (kv # vs) nm st = resolve vs nm st"
      unfolding kv st by (auto simp: entry_matches_def Let_def split: if_splits)
    then show ?thesis using Cons False by (simp add: kv)
  qed
qed

lemma filter_enumerates:
  assumes "enumerates xs m" "length (filter P m) \<le> 1"
  shows "filter P xs = filter P m"
proof -
  have eq: "mset (filter P xs) = mset (filter P m)"
    unfolding mset_filter using assms(1) by (simp add: enumerates_def)
  show ?thesis
  proof (cases "filter P m")
    case Nil
    then show ?thesis using eq by (simp del: mset_filter)
  next
    case (Cons y ys)
    then have "ys = []" using assms(2) by simp
    then show ?thesis using eq Cons by (simp del: mset_filter)
  qed
qed

lemma resolve_any_order:
  assumes "enumerates vs1 v" "enumerates vs2 v"
    "length (filter (\<lambda>e. entry_matches (fst e) nm) v) \<le> 1"
  shows "resolve vs1 nm st = resolve vs2 nm st"
  using resolve_filter [of vs1 nm st] resolve_filter [of vs2 nm st]
    filter_enumerates [OF assms(1,3)] filter_enumerates [OF assms(2,3)]
  by simp

lemma foldl_filter:
  "(\<And>a x. \<not> P x \<Longrightarrow> g a x = a) \<Longrightarrow> foldl g a xs = foldl g a (filter P xs)"
  by (induction xs arbitrary: a) auto

lemma concat_map_filter:
  "(\<And>x. \<not> P x \<Longrightarrow> f x = []) \<Longrightarrow> concat (map f xs) = concat (map f (filter P xs))"
  by (induction xs) auto

lemma foldl_idem:
  "length xs \<le> 1 \<Longrightarrow> (\<And>a x. g (g a x) x = g a x) \<Longrightarrow> foldl g (foldl g a xs) xs = foldl g a xs"
  by (cases xs) auto

lemma same_config_sym: "same_config p q \<Longrightarrow> same_config q p"
  by (simp add: same_config_def)

lemma one_spelling_filter:
  assumes "one_spelling q" "N \<in> {''FIELDS'', ''OFFSET'', ''LIMIT'', ''SORT''}"
    "enumerates qs1 q" "enumerates qs2 q"
  shows "filter (is_key N) qs1 = filter (is_key N) qs2 \<and> length (filter (is_key N) qs2) \<le> 1"
proof -
  have le: "length (filter (is_key N) q) \<le> 1"
    using assms(1,2) by (auto simp: one_spelling_def)
  show ?thesis
    using filter_enumerates [OF assms(3) le] filter_enumerates [OF assms(4) le] le by simp
qed

text \<open>
  The claim C10 has the second run of \<open>Parse\<close> do again what the first did. The runs go
  through the maps in orders of their own. With the keys \<open>limit\<close> and \<open>LIMIT\<close> in the
  query, the first run may end on \<open>LIMIT\<close> and leave the limit 2, and the second on
  \<open>limit\<close> and leave 1. With the keys \<open>sort\<close> and \<open>SORT\<close> the second run may append
  the directives in the other order. With the entries \<open>id\<close> and \<open>id:int\<close> in the
  validation table, the first run may read the filter \<open>id\<close> as a string and succeed, and
  the second read it as an integer and fail.
\<close>

theorem second_Parse_in_another_order:
  "enumerates [(''LIMIT'', [''2'']), (''limit'', [''1''])]
     (query (New [(''limit'', [''1'']), (''LIMIT'', [''2''])] [])) \<and>
   Parse no_text [(''limit'', [''1'']), (''LIMIT'', [''2''])] (every_key [])
       (New [(''limit'', [''1'']), (''LIMIT'', [''2''])] []) =
     (Ok, (New [(''limit'', [''1'']), (''LIMIT'', [''2''])] [])\<lparr>limit := 2\<rparr>) \<and>
   Parse no_text [(''LIMIT'', [''2'']), (''limit'', [''1''])] (every_key [])
       ((New [(''limit'', [''1'']), (''LIMIT'', [''2''])] [])\<lparr>limit := 2\<rparr>) =
     (Ok, (New [(''limit'', [''1'']), (''LIMIT'', [''2''])] [])\<lparr>limit := 1\<rparr>) \<and>
   Parse no_text [(''sort'', [''a'']), (''SORT'', [''b''])] (every_key [])
       (New [(''sort'', [''a'']), (''SORT'', [''b''])] []) =
     (Ok, (New [(''sort'', [''a'']), (''SORT'', [''b''])] [])\<lparr>sort_fld :=
        [\<lparr>sort_by = ''a'', desc = False\<rparr>, \<lparr>sort_by = ''b'', desc = False\<rparr>]\<rparr>) \<and>
   sort_fld (snd (Parse no_text [(''SORT'', [''b'']), (''sort'', [''a''])] (every_key [])
       ((New [(''sort'', [''a'']), (''SORT'', [''b''])] [])\<lparr>sort_fld :=
        [\<lparr>sort_by = ''a'', desc = False\<rparr>, \<lparr>sort_by = ''b'', desc = False\<rparr>]\<rparr>))) =
     [\<lparr>sort_by = ''a'', desc = False\<rparr>, \<lparr>sort_by = ''b'', desc = False\<rparr>,
      \<lparr>sort_by = ''b'', desc = False\<rparr>, \<lparr>sort_by = ''a'', desc = False\<rparr>] \<and>
   enumerates [(''id:int'', None), (''id'', None)]
     (validations (New [(''id'', [''x''])] [(''id'', None), (''id:int'', None)])) \<and>
   Parse no_text [(''id'', [''x''])] (every_key [(''id'', None), (''id:int'', None)])
       (New [(''id'', [''x''])] [(''id'', None), (''id:int'', None)]) =
     (Ok, (New [(''id'', [''x''])] [(''id'', None), (''id:int'', None)])\<lparr>filters :=
        [\<lparr>name = ''id'', method_fld = MethodEQ, val = VString ''x''\<rparr>]\<rparr>) \<and>
   fst (Parse no_text [(''id'', [''x''])] (every_key [(''id:int'', None), (''id'', None)])
       ((New [(''id'', [''x''])] [(''id'', None), (''id:int'', None)])\<lparr>filters :=
        [\<lparr>name = ''id'', method_fld = MethodEQ, val = VString ''x''\<rparr>]\<rparr>)) =
     Err (ConversionError ''int'' ''id'')"
  by (simp add: eval_defs enumerates_def)

text \<open>
  C10, amended. \<open>Parse\<close> does not reset the parser. Let the query have at most one key
  for each of the reserved names \<open>FIELDS\<close>, \<open>OFFSET\<close>, \<open>LIMIT\<close> and \<open>SORT\<close>, and let
  at most one entry of the validation table match the field name of each filter key of the
  query. When \<open>Parse\<close> has succeeded, a second \<open>Parse\<close> on the result succeeds too, in
  whatever orders the two runs go through the query and the validation table: the sort
  directives \<open>S\<close> that the first run appended are appended again, and the fields list, the
  offset and the limit are what they were after the first run. For the query
  \<open>fields=id\<close>, \<open>sort=-name,+age\<close>, \<open>limit=10\<close>, \<open>Sort()\<close> is
  \<open>ORDER BY name DESC, age\<close> after one run and lists both directives twice after two, while
  \<open>Fields()\<close> and \<open>Limit()\<close> stay \<open>id\<close> and \<open>LIMIT 10\<close>.
\<close>

theorem Parse_twice:
  assumes q1: "enumerates qs1 (query p)" and q2: "enumerates qs2 (query p)"
    and v1: "\<forall>k. enumerates (vs1 k) (validations p)"
    and v2: "\<forall>k. enumerates (vs2 k) (validations p)"
    and un: "unambiguous p"
    and run: "Parse txt qs1 vs1 p = (Ok, p')"
  shows "\<exists>p''. Parse txt qs2 vs2 p' = (Ok, p'') \<and>
     (\<exists>S. sort_fld p' = sort_fld p @ S \<and> sort_fld p'' = sort_fld p @ S @ S) \<and>
     fields_fld p'' = fields_fld p' \<and> offset p'' = offset p' \<and> limit p'' = limit p'"
proof -
  have loop1: "Parse_loop txt vs1 p qs1 = (Ok, p')" using run by (simp add: Parse_def)
  note e1 = Parse_loop_Ok_effect [OF loop1]
  have c: "same_config p p'" using e1 by simp
  have sets: "set qs2 = set qs1"
    using enumerates_set [OF q1] enumerates_set [OF q2] by simp
  have step: "\<exists>x1. parse_key txt vs2 x kv = (Ok, x1)"
    if kv: "kv \<in> set qs2" and x: "same_config p x" for kv x
  proof -
    from Parse_loop_keys_Ok [OF loop1] kv sets obtain s s1 where
      s: "same_config p s" "parse_key txt vs1 s kv = (Ok, s1)"
      by blast
    have sx: "same_config s x" using s(1) x by (blast intro: same_config_sym same_config_trans)
    have "kv \<in> set (query p)" using kv enumerates_set [OF q2] by simp
    then have one: "reserved (fst kv) \<or> one_entry (validations p) kv"
      using un by (auto simp: unambiguous_def list_all_iff)
    have same: "resolve (vs1 (fst kv)) (name flt) st = resolve (vs2 (fst kv)) (name flt) st"
      if "\<not> reserved (fst kv)" "parseFilterKey (fst kv) = Inr flt" for flt st
    proof -
      have "length (filter (\<lambda>e. entry_matches (fst e) (name flt)) (validations p)) \<le> 1"
        using one that by (simp add: one_entry_def)
      then show ?thesis using v1 v2 by (intro resolve_any_order [of _ "validations p"]) auto
    qed
    from parse_key_twin [of s x "txt" vs1 kv Ok s1 vs2, OF sx s(2)] same show ?thesis by blast
  qed
  have "\<forall>kv \<in> set qs2. \<forall>q. same_config p q \<longrightarrow> (\<exists>q1. parse_key txt vs2 q kv = (Ok, q1))"
    using step by blast
  from Parse_loop_any_order [OF this c] obtain p'' where
    loop2: "Parse_loop txt vs2 p' qs2 = (Ok, p'')"
    by blast
  note e2 = Parse_loop_Ok_effect [OF loop2]
  note st = same_config_steps [OF c]
  have os: "one_spelling (query p)" using un by (simp add: unambiguous_def)
  note fs = one_spelling_filter [OF os _ q1 q2]
  have sortS: "concat (map (sort_step p) qs) =
      concat (map (sort_step p) (filter (is_key ''SORT'') qs))" for qs
    by (rule concat_map_filter) (simp add: sort_step_def)
  have F: "foldl (\<lambda>a kv. fields_step p kv a) a qs =
      foldl (\<lambda>a kv. fields_step p kv a) a (filter (is_key ''FIELDS'') qs)" for a qs
    by (rule foldl_filter) (simp add: fields_step_def)
  have O: "foldl (\<lambda>a kv. offset_step kv a) a qs =
      foldl (\<lambda>a kv. offset_step kv a) a (filter (is_key ''OFFSET'') qs)" for a qs
    by (rule foldl_filter) (simp add: offset_step_def)
  have L: "foldl (\<lambda>a kv. limit_step kv a) a qs =
      foldl (\<lambda>a kv. limit_step kv a) a (filter (is_key ''LIMIT'') qs)" for a qs
    by (rule foldl_filter) (simp add: limit_step_def)
  define S where "S = concat (map (sort_step p) qs1)"
  have S2: "concat (map (sort_step p') qs2) = S"
    unfolding S_def using st sortS [of qs1] sortS [of qs2] fs [of "''SORT''"] by simp
  have 1: "sort_fld p' = sort_fld p @ S \<and> sort_fld p'' = sort_fld p @ S @ S"
    using e1 e2 S2 by (simp add: S_def)
  have 2: "fields_fld p'' = fields_fld p'"
  proof -
    have "fields_fld p'' = foldl (\<lambda>a kv. fields_step p kv a)
        (foldl (\<lambda>a kv. fields_step p kv a) (fields_fld p) (filter (is_key ''FIELDS'') qs2))
        (filter (is_key ''FIELDS'') qs2)"
      using e1 e2 st F [of _ qs1] F [of _ qs2] fs [of "''FIELDS''"] by simp
    also have "\<dots> = foldl (\<lambda>a kv. fields_step p kv a) (fields_fld p)
        (filter (is_key ''FIELDS'') qs2)"
      using fs [of "''FIELDS''"] by (intro foldl_idem) (simp_all add: fields_step_def)
    also have "\<dots> = fields_fld p'"
      using e1 F [of _ qs1] fs [of "''FIELDS''"] by simp
    finally show ?thesis .
  qed
  have 3: "offset p'' = offset p'"
  proof -
    have "offset p'' = foldl (\<lambda>a kv. offset_step kv a)
        (foldl (\<lambda>a kv. offset_step kv a) (offset p) (filter (is_key ''OFFSET'') qs2))
        (filter (is_key ''OFFSET'') qs2)"
      using e1 e2 O [of _ qs1] O [of _ qs2] fs [of "''OFFSET''"] by simp
    also have "\<dots> = foldl (\<lambda>a kv. offset_step kv a) (offset p)
        (filter (is_key ''OFFSET'') qs2)"
      using fs [of "''OFFSET''"] by (intro foldl_idem) (simp_all add: offset_step_def)
    also have "\<dots> = offset p'"
      using e1 O [of _ qs1] fs [of "''OFFSET''"] by simp
    finally show ?thesis .
  qed
  have 4: "limit p'' = limit p'"
  proof -
    have "limit p'' = foldl (\<lambda>a kv. limit_step kv a)
        (foldl (\<lambda>a kv. limit_step kv a) (limit p) (filter (is_key ''LIMIT'') qs2))
        (filter (is_key ''LIMIT'') qs2)"
      using e1 e2 L [of _ qs1] L [of _ qs2] fs [of "''LIMIT''"] by simp
    also have "\<dots> = foldl (\<lambda>a kv. limit_step kv a) (limit p)
        (filter (is_key ''LIMIT'') qs2)"
      using fs [of "''LIMIT''"] by (intro foldl_idem) (simp_all add: limit_step_def)
    also have "\<dots> = limit p'"
      using e1 L [of _ qs1] fs [of "''LIMIT''"] by simp
    finally show ?thesis .
  qed
  have 0: "Parse txt qs2 vs2 p' = (Ok, p'')" using loop2 by (simp add: Parse_def)
  show ?thesis using 0 1 2 3 4 by blast
qed

theorem Parse_twice_witness:
  "enumerates [(''name'', [''x'']), (''limit'', [''10'']), (''sort'', [''-name,+age'']), (''fields'', [''id''])]
     (query (New [(''fields'', [''id'']), (''sort'', [''-name,+age'']), (''limit'', [''10'']),
        (''name'', [''x''])] [(''name'', None), (''id:int'', None)])) \<and>
   enumerates [(''id:int'', None), (''name'', None)]
     (validations (New [(''fields'', [''id'']), (''sort'', [''-name,+age'']), (''limit'', [''10'']),
        (''name'', [''x''])] [(''name'', None), (''id:int'', None)])) \<and>
   unambiguous (New [(''fields'', [''id'']), (''sort'', [''-name,+age'']), (''limit'', [''10'']),
        (''name'', [''x''])] [(''name'', None), (''id:int'', None)]) \<and>
   fst (NewParse no_text
      [(''fields'', [''id'']), (''sort'', [''-name,+age'']), (''limit'', [''10'']), (''name'', [''x''])]
      (every_key [(''name'', None), (''id:int'', None)])
      [(''fields'', [''id'']), (''sort'', [''-name,+age'']), (''limit'', [''10'']), (''name'', [''x''])]
      [(''name'', None), (''id:int'', None)]) = Ok \<and>
   fst (Parse no_text
      [(''name'', [''x'']), (''limit'', [''10'']), (''sort'', [''-name,+age'']), (''fields'', [''id''])]
      (every_key [(''id:int'', None), (''name'', None)])
      (snd (NewParse no_text
        [(''fields'', [''id'']), (''sort'', [''-name,+age'']), (''limit'', [''10'']), (''name'', [''x''])]
        (every_key [(''name'', None), (''id:int'', None)])
        [(''fields'', [''id'']), (''sort'', [''-name,+age'']), (''limit'', [''10'']), (''name'', [''x''])]
        [(''name'', None), (''id:int'', None)]))) = Ok \<and>
   Sort (snd (NewParse no_text
      [(''fields'', [''id'']), (''sort'', [''-name,+age'']), (''limit'', [''10'']), (''name'', [''x''])]
      (every_key [(''name'', None), (''id:int'', None)])
      [(''fields'', [''id'']), (''sort'', [''-name,+age'']), (''limit'', [''10'']), (''name'', [''x''])]
      [(''name'', None), (''id:int'', None)])) = ''ORDER BY name DESC, age'' \<and>
   Sort (snd (Parse no_text
      [(''name'', [''x'']), (''limit'', [''10'']), (''sort'', [''-name,+age'']), (''fields'', [''id''])]
      (every_key [(''id:int'', None), (''name'', None)])
      (snd (NewParse no_text
        [(''fields'', [''id'']), (''sort'', [''-name,+age'']), (''limit'', [''10'']), (''name'', [''x''])]
        (every_key [(''name'', None), (''id:int'', None)])
        [(''fields'', [''id'']), (''sort'', [''-name,+age'']), (''limit'', [''10'']), (''name'', [''x''])]
        [(''name'', None), (''id:int'', None)])))) = ''ORDER BY name DESC, age, name DESC, age'' \<and>
   Fields (snd (Parse no_text
      [(''name'', [''x'']), (''limit'', [''10'']), (''sort'', [''-name,+age'']), (''fields'', [''id''])]
      (every_key [(''id:int'', None), (''name'', None)])
      (snd (NewParse no_text
        [(''fields'', [''id'']), (''sort'', [''-name,+age'']), (''limit'', [''10'']), (''name'', [''x''])]
        (every_key [(''name'', None), (''id:int'', None)])
        [(''fields'', [''id'']), (''sort'', [''-name,+age'']), (''limit'', [''10'']), (''name'', [''x''])]
        [(''name'', None), (''id:int'', None)])))) = ''id'' \<and>
   Limit (snd (Parse no_text
      [(''name'', [''x'']), (''limit'', [''10'']), (''sort'', [''-name,+age'']), (''fields'', [''id''])]
      (every_key [(''id:int'', None), (''name'', None)])
      (snd (NewParse no_text
        [(''fields'', [''id'']), (''sort'', [''-name,+age'']), (''limit'', [''10'']), (''name'', [''x''])]
        (every_key [(''name'', None), (''id:int'', None)])
        [(''fields'', [''id'']), (''sort'', [''-name,+age'']), (''limit'', [''10'']), (''name'', [''x''])]
        [(''name'', None), (''id:int'', None)])))) = ''LIMIT 10''"
proof -
  define q where "q = [(''fields'', [''id'']), (''sort'', [''-name,+age'']), (''limit'', [''10'']),
    (''name'', [''x''])]"
  define q' where "q' = [(''name'', [''x'']), (''limit'', [''10'']), (''sort'', [''-name,+age'']),
    (''fields'', [''id''])]"
  define v :: Validations where "v = [(''name'', None), (''id:int'', None)]"
  define v' :: Validations where "v' = [(''id:int'', None), (''name'', None)]"
  define p1 where "p1 = (New q v)\<lparr>fields_fld := [''id''],
      sort_fld := [\<lparr>sort_by = ''name'', desc = True\<rparr>, \<lparr>sort_by = ''age'', desc = False\<rparr>],
      limit := 10, filters := [\<lparr>name = ''name'', method_fld = ''EQ'', val = VString ''x''\<rparr>]\<rparr>"
  define two where "two = [\<lparr>sort_by = ''name'', desc = True\<rparr>, \<lparr>sort_by = ''age'', desc = False\<rparr>,
      \<lparr>sort_by = ''name'', desc = True\<rparr>, \<lparr>sort_by = ''age'', desc = False\<rparr>]"
  have e1: "enumerates q (query (New q v))" and e2: "enumerates q' (query (New q v))"
    unfolding q_def q'_def v_def
    by (simp_all add: enumerates_def New_def SetQuery_def SetValidations_def defaults_def)
  have e3: "\<forall>k. enumerates (every_key v k) (validations (New q v))"
    and e4: "\<forall>k. enumerates (every_key v' k) (validations (New q v))"
    and e5: "enumerates v' (validations (New q v))"
    unfolding q_def v_def v'_def
    by (simp_all add: enumerates_def every_key_def New_def SetQuery_def SetValidations_def
        defaults_def)
  have un: "unambiguous (New q v)"
    unfolding q_def v_def
    by (simp add: unambiguous_def one_spelling_def one_entry_def is_key_def reserved_def
        entry_matches_def eval_defs)
  have first: "Parse no_text q (every_key v) (New q v) = (Ok, p1)"
    unfolding q_def v_def p1_def by (simp add: eval_defs)
  have second: "Parse no_text q' (every_key v') p1 =
      (Ok, p1\<lparr>sort_fld := two, filters := filters p1 @ filters p1\<rparr>)"
    unfolding q_def q'_def v_def v'_def p1_def two_def by (simp add: eval_defs)
  have render: "Sort p1 = ''ORDER BY name DESC, age''"
    "Sort (p1\<lparr>sort_fld := two, filters := filters p1 @ filters p1\<rparr>) =
       ''ORDER BY name DESC, age, name DESC, age''"
    "Fields (p1\<lparr>sort_fld := two, filters := filters p1 @ filters p1\<rparr>) = ''id''"
    "Limit (p1\<lparr>sort_fld := two, filters := filters p1 @ filters p1\<rparr>) = ''LIMIT 10''"
    unfolding q_def v_def p1_def two_def by (simp_all add: eval_defs)
  show ?thesis
    using Parse_twice [OF e1 e2 e3 e4 un first] e2 e5 un first second render
    unfolding NewParse_def q_def [symmetric] q'_def [symmetric] v_def [symmetric]
      v'_def [symmetric]
    by simp
qed

end
